theory Spec2Isabelle
  imports Main
begin

section \<open>History commands of Dance: repeat, repeat\_edit and macro recordings\<close>

text \<open>
  This theory embeds \<^verbatim>\<open>src/commands/history.ts\<close>: the commands \<^verbatim>\<open>repeat\<close>,
  \<^verbatim>\<open>repeat_edit\<close>, \<^verbatim>\<open>recording_play\<close>, \<^verbatim>\<open>recording_start\<close> and
  \<^verbatim>\<open>recording_stop\<close>. The commands are asynchronous TypeScript functions over mutable
  objects; here every command takes the state and returns the updated state together
  with the error it threw, if any. An \<^verbatim>\<open>await\<close> is sequential composition.
\<close>

subsection \<open>Errors\<close>

text \<open>
  \<^verbatim>\<open>throw new Error(msg)\<close> is \<open>Error msg\<close>. \<^verbatim>\<open>ArgumentError.validate(name, cond, msg)\<close>
  throws \<open>ArgumentError msg name\<close> when \<open>cond\<close> is false. \<open>AssertionError\<close> is what
  dereferencing a cursor that points at no entry raises, \<open>TypeError\<close> what calling a
  method of \<^verbatim>\<open>undefined\<close> raises, \<open>SyntaxError msg\<close> what \<^verbatim>\<open>new RegExp\<close> throws
  on a string that is no pattern.
\<close>

datatype error =
    Error string
  | ArgumentError string string
  | AssertionError
  | TypeError
  | SyntaxError string

type_synonym 's command = "'s \<Rightarrow> error option \<times> 's"

definition validate :: "string \<Rightarrow> bool \<Rightarrow> string \<Rightarrow> error option" where
  "validate argumentName condition message =
     (if condition then None else Some (ArgumentError message argumentName))"

subsection \<open>Regular expressions\<close>

text \<open>
  A JavaScript \<^verbatim>\<open>RegExp\<close> is kept abstract: its source and flags (what string
  concatenation prints, \<^verbatim>\<open>/source/flags\<close>) and its \<^verbatim>\<open>test\<close> method. The constructor
  \<^verbatim>\<open>new RegExp(s, "u")\<close> is a parameter \<open>newRegExp\<close> of \<open>repeat\<close>: it returns the
  RegExp of a pattern, or the \<open>SyntaxError\<close> it throws on a string that is no pattern.
  The argument \<^verbatim>\<open>filter\<close> is a string or a RegExp; the default \<^verbatim>\<open>/.+/\<close> of an
  omitted argument is a RegExp like any other. \<open>test\<close> is a function of the string
  tested: the position that a RegExp with the flag \<^verbatim>\<open>g\<close> or \<^verbatim>\<open>y\<close> keeps between two
  tests is left out.
\<close>

record RegExp =
  source :: string
  flags :: string
  test :: "string \<Rightarrow> bool"

definition RegExp_toString :: "RegExp \<Rightarrow> string" where
  "RegExp_toString r = ''/'' @ source r @ ''/'' @ flags r"

datatype filter_argument = FilterString string | FilterRegExp RegExp

subsection \<open>Descriptors, entries and the state\<close>

text \<open>
  A command descriptor exposes its identifier, its replay policy and its
  \<^verbatim>\<open>replay(context, argument)\<close> operation. The operation belongs to the command
  registry: it is a field of the record, a function of the argument and of the live
  editor state \<open>'w\<close> that returns the new editor state and the error it threw, if any.
  \<open>'a\<close> is the type of command arguments. The field \<^verbatim>\<open>identifier\<close> is
  \<open>descriptor_identifier\<close> here, the shorter name being reserved.
\<close>

record ('w, 'a) CommandDescriptor =
  descriptor_identifier :: string
  shouldBeReplayed :: bool
  replay :: "'a \<Rightarrow> 'w \<Rightarrow> error option \<times> 'w"

datatype ('w, 'a) Entry =
    ExecuteCommand "('w, 'a) CommandDescriptor" 'a
  | ChangeTextEditorMode string

text \<open>
  What a replay does to the editor is observed twice: in the editor state \<open>world\<close>,
  and in \<open>trace\<close>, which lists every replay invoked so far (the identifier and the
  argument of a command replay, the mode of a replayed mode change), the latest last.
\<close>

datatype 'a event = Replayed string 'a | ModeChanged string

text \<open>
  The state holds the context \<^verbatim>\<open>_\<close> (the editor state, the cancellation token, the
  flag that \<^verbatim>\<open>doNotRecord()\<close> clears), the recorder \<^verbatim>\<open>_.extension.recorder\<close> (its
  log \<open>history\<close> and the sub-logs of its active recordings, each under the number
  that stands for its \<^verbatim>\<open>ActiveRecording\<close> object), the module's
  \<^verbatim>\<open>recordingPerRegister\<close> map and, for every register, the recording it holds
  (\<^verbatim>\<open>getRecording()\<close>, \<open>None\<close> for \<^verbatim>\<open>undefined\<close>). A register is its name.
\<close>

record ('w, 'a) state =
  world :: 'w
  trace :: "'a event list"
  cancellationRequested :: bool
  shouldRecord :: bool
  history :: "('w, 'a) Entry list"
  sessions :: "nat \<rightharpoonup> ('w, 'a) Entry list"
  nextSession :: nat
  recordingPerRegister :: "string \<rightharpoonup> nat"
  registerRecording :: "string \<rightharpoonup> ('w, 'a) Entry list"

definition doNotRecord :: "('w, 'a) state \<Rightarrow> ('w, 'a) state" where
  "doNotRecord st = st\<lparr>shouldRecord := False\<rparr>"

subsection \<open>Cursors\<close>

text \<open>
  Modelled from the spec: the class \<^verbatim>\<open>Cursor\<close> and \<^verbatim>\<open>Recorder.cursorFromEnd\<close> of
  \<^verbatim>\<open>src/state/recorder.ts\<close>, which is not part of the sources at hand. A cursor is a
  position in the log; \<open>cursorFromEnd\<close> is one past the last entry; \<open>is\<close> is false
  out of bounds; \<open>previous\<close> returns false and stays at the start of the log, \<open>next\<close>
  returns false and stays at its end; \<open>isBeforeOrEqual\<close> compares positions. The log
  a cursor points into is passed to each operation.
\<close>

type_synonym cursor = nat

definition cursorFromEnd :: "'e list \<Rightarrow> cursor" where
  "cursorFromEnd lg = length lg"

definition cursor_entry :: "'e list \<Rightarrow> cursor \<Rightarrow> 'e option" where
  "cursor_entry lg c = (if c < length lg then Some (lg ! c) else None)"

definition cursor_previous :: "'e list \<Rightarrow> cursor \<Rightarrow> bool \<times> cursor" where
  "cursor_previous lg c = (if c = 0 then (False, c) else (True, c - 1))"

definition cursor_next :: "'e list \<Rightarrow> cursor \<Rightarrow> bool \<times> cursor" where
  "cursor_next lg c = (if length lg \<le> c then (False, c) else (True, c + 1))"

definition isBeforeOrEqual :: "cursor \<Rightarrow> cursor \<Rightarrow> bool" where
  "isBeforeOrEqual c d = (c \<le> d)"

subsection \<open>Replaying\<close>

text \<open>
  \<open>descriptor_replay\<close> is the call \<^verbatim>\<open>descriptor.replay(_, argument)\<close>: it runs the
  descriptor's operation on the editor state and notes the invocation in the trace,
  whether the operation fails or not.
\<close>

definition descriptor_replay ::
  "('w, 'a) CommandDescriptor \<Rightarrow> 'a \<Rightarrow> ('w, 'a) state command" where
  "descriptor_replay d a st =
     (case replay d a (world st) of
        (r, w) \<Rightarrow> (r, st\<lparr>world := w, trace := trace st @ [Replayed (descriptor_identifier d) a]\<rparr>))"

text \<open>
  The loop \<^verbatim>\<open>for (let i = 0; i < repetitions; i++) { await body; }\<close>: an error thrown
  by the body leaves the loop. The count is an integer, as the key bindings pass it; a
  count below one runs the body not at all.
\<close>

function for_repetitions :: "int \<Rightarrow> int \<Rightarrow> 's command \<Rightarrow> 's command" where
  "for_repetitions i repetitions body st =
     (if i < repetitions then
        (case body st of
           (Some e, st') \<Rightarrow> (Some e, st')
         | (None, st') \<Rightarrow> for_repetitions (i + 1) repetitions body st')
      else (None, st))"
  by pat_completeness auto
termination
  by (relation "measure (\<lambda>(i, repetitions, body, st). nat (repetitions - i))") auto

declare for_repetitions.simps [simp del]

subsection \<open>repeat\<close>

text \<open>
  The search loop of \<^verbatim>\<open>repeat\<close>: at each position, an \<^verbatim>\<open>ExecuteCommand\<close> entry whose
  descriptor is to be replayed and whose identifier passes the filter ends the search;
  otherwise the cursor steps back, and the search fails at the start of the log.
\<close>

function repeat_search ::
  "RegExp \<Rightarrow> ('w, 'a) Entry list \<Rightarrow> cursor \<Rightarrow> error + ('w, 'a) CommandDescriptor \<times> 'a" where
  "repeat_search flt lg cursor =
     (case (case cursor_entry lg cursor of
              Some (ExecuteCommand descriptor argument) \<Rightarrow>
                if shouldBeReplayed descriptor \<and> test flt (descriptor_identifier descriptor)
                then Some (descriptor, argument) else None
            | _ \<Rightarrow> None) of
        Some found \<Rightarrow> Inr found
      | None \<Rightarrow>
          (case cursor_previous lg cursor of
             (False, _) \<Rightarrow> Inl (Error (''no previous command matching '' @ RegExp_toString flt))
           | (True, cursor') \<Rightarrow> repeat_search flt lg cursor'))"
  by pat_completeness auto
termination
  by (relation "measure (\<lambda>(flt, lg, cursor). cursor)")
     (auto simp: cursor_previous_def split: if_splits)

declare repeat_search.simps [simp del]

text \<open>
  The first statement of \<^verbatim>\<open>repeat\<close>: a string filter is compiled with the flag
  \<^verbatim>\<open>u\<close>, which throws on a string that is no pattern; a RegExp filter is taken as it
  is.
\<close>

definition filter_RegExp ::
  "(string \<Rightarrow> string \<Rightarrow> error + RegExp) \<Rightarrow> filter_argument \<Rightarrow> error + RegExp" where
  "filter_RegExp newRegExp flt =
     (case flt of
        FilterString s \<Rightarrow> newRegExp s ''u''
      | FilterRegExp r \<Rightarrow> Inr r)"

definition repeat ::
  "(string \<Rightarrow> string \<Rightarrow> error + RegExp) \<Rightarrow> int \<Rightarrow> filter_argument \<Rightarrow>
   ('w, 'a) state command" where
  "repeat newRegExp repetitions flt st =
     (case filter_RegExp newRegExp flt of
        Inl e \<Rightarrow> (Some e, st)
      | Inr flt' \<Rightarrow>
          (case repeat_search flt' (history st) (cursorFromEnd (history st)) of
             Inl e \<Rightarrow> (Some e, st)
           | Inr (commandDescriptor, commandArgument) \<Rightarrow>
               for_repetitions 0 repetitions
                 (descriptor_replay commandDescriptor commandArgument) st))"

subsection \<open>repeat\_edit\<close>

text \<open>
  One turn of the search loop of \<^verbatim>\<open>repeat_edit\<close>, up to the final
  \<^verbatim>\<open>cursor.previous()\<close>: at a mode change to normal the cursor steps back and is cloned
  as the end cursor; at a mode change to insert with an end cursor it steps forward, is
  cloned as the start cursor and the loop is left; anything else changes nothing.
\<close>

datatype scan = Break cursor cursor | Continue cursor "cursor option"

definition scan_step :: "('w, 'a) Entry list \<Rightarrow> cursor \<Rightarrow> cursor option \<Rightarrow> scan" where
  "scan_step lg cursor endCursor =
     (case cursor_entry lg cursor of
        Some (ChangeTextEditorMode modeName) \<Rightarrow>
          if modeName = ''normal'' then
            (let cursor1 = snd (cursor_previous lg cursor) in Continue cursor1 (Some cursor1))
          else
            (case endCursor of
               Some e \<Rightarrow>
                 if modeName = ''insert'' then Break (snd (cursor_next lg cursor)) e
                 else Continue cursor endCursor
             | None \<Rightarrow> Continue cursor endCursor)
      | _ \<Rightarrow> Continue cursor endCursor)"

function edit_span_search ::
  "('w, 'a) Entry list \<Rightarrow> cursor \<Rightarrow> cursor option \<Rightarrow> error + cursor \<times> cursor" where
  "edit_span_search lg cursor endCursor =
     (case scan_step lg cursor endCursor of
        Break startCursor endCursor' \<Rightarrow> Inr (startCursor, endCursor')
      | Continue cursor1 endCursor' \<Rightarrow>
          (case cursor_previous lg cursor1 of
             (False, _) \<Rightarrow> Inl (Error ''cannot find switch to normal or insert mode'')
           | (True, cursor2) \<Rightarrow> edit_span_search lg cursor2 endCursor'))"
  by pat_completeness auto
termination
  by (relation "measure (\<lambda>(lg, cursor, endCursor). cursor)")
     (auto simp: scan_step_def cursor_previous_def Let_def
           split: if_splits option.splits Entry.splits)

declare edit_span_search.simps [simp del]

text \<open>
  Modelled from the spec: \<^verbatim>\<open>Cursor.replay\<close> of \<^verbatim>\<open>src/state/recorder.ts\<close>. It
  re-executes the entry under the cursor: a command entry invokes its descriptor's
  replay with the captured argument, a mode change triggers the mode transition, which
  is the editor's operation \<open>setMode\<close>, a parameter. Replaying appends nothing to the
  log. A cursor that points at no entry has no entry to hand out.
\<close>

definition entry_replay ::
  "(string \<Rightarrow> 'w \<Rightarrow> error option \<times> 'w) \<Rightarrow> ('w, 'a) Entry \<Rightarrow> ('w, 'a) state command" where
  "entry_replay setMode entry st =
     (case entry of
        ExecuteCommand d a \<Rightarrow> descriptor_replay d a st
      | ChangeTextEditorMode m \<Rightarrow>
          (case setMode m (world st) of
             (r, w) \<Rightarrow> (r, st\<lparr>world := w, trace := trace st @ [ModeChanged m]\<rparr>)))"

definition cursor_replay ::
  "(string \<Rightarrow> 'w \<Rightarrow> error option \<times> 'w) \<Rightarrow> ('w, 'a) Entry list \<Rightarrow> cursor \<Rightarrow>
   ('w, 'a) state command" where
  "cursor_replay setMode lg cursor st =
     (case cursor_entry lg cursor of
        None \<Rightarrow> (Some AssertionError, st)
      | Some entry \<Rightarrow> entry_replay setMode entry st)"

text \<open>
  The inner loop
  \<^verbatim>\<open>for (let cursor = startCursor.clone(); cursor.isBeforeOrEqual(endCursor); cursor.next())\<close>
  with the body \<^verbatim>\<open>await cursor.replay(_)\<close>.
\<close>

function replay_span ::
  "(string \<Rightarrow> 'w \<Rightarrow> error option \<times> 'w) \<Rightarrow> ('w, 'a) Entry list \<Rightarrow> cursor \<Rightarrow> cursor \<Rightarrow>
   ('w, 'a) state command" where
  "replay_span setMode lg endCursor cursor st =
     (if isBeforeOrEqual cursor endCursor then
        (case cursor_replay setMode lg cursor st of
           (Some e, st') \<Rightarrow> (Some e, st')
         | (None, st') \<Rightarrow> replay_span setMode lg endCursor (snd (cursor_next lg cursor)) st')
      else (None, st))"
  by pat_completeness auto
termination
  by (relation "measure (\<lambda>(setMode, lg, endCursor, cursor, st). Suc endCursor - cursor)")
     (auto simp: cursor_replay_def cursor_entry_def cursor_next_def isBeforeOrEqual_def
           split: if_splits option.splits)

declare replay_span.simps [simp del]

definition repeat_edit ::
  "(string \<Rightarrow> 'w \<Rightarrow> error option \<times> 'w) \<Rightarrow> int \<Rightarrow> ('w, 'a) state command" where
  "repeat_edit setMode repetitions st =
     (let st1 = doNotRecord st;
          lg = history st1;
          cursor = cursorFromEnd lg
      in case edit_span_search lg cursor None of
           Inl e \<Rightarrow> (Some e, st1)
         | Inr (startCursor, endCursor) \<Rightarrow>
             for_repetitions 0 repetitions (replay_span setMode lg endCursor startCursor) st1)"

subsection \<open>Recordings\<close>

text \<open>
  Modelled from the spec: \<^verbatim>\<open>Recording.replay\<close>, \<^verbatim>\<open>Recorder.startRecording\<close> and
  \<^verbatim>\<open>ActiveRecording.complete\<close> of \<^verbatim>\<open>src/state/recorder.ts\<close>, and the recorder's
  append. A recording is the ordered list of the entries of one session; replaying it
  replays each entry in order and stops at the first that fails. \<open>startRecording\<close>
  opens a new session with an empty sub-log; \<open>complete\<close> closes the session and seals
  its sub-log into a recording; \<open>recorder_append\<close> adds an entry to the log and to the
  sub-log of every open session. Completing a session that is not open, which no
  recording taken from \<open>recordingPerRegister\<close> is while the sessions are owned (see
  \<open>sessions_owned\<close>), seals the empty recording.
\<close>

fun recording_replay ::
  "(string \<Rightarrow> 'w \<Rightarrow> error option \<times> 'w) \<Rightarrow> ('w, 'a) Entry list \<Rightarrow> ('w, 'a) state command" where
  "recording_replay setMode [] st = (None, st)"
| "recording_replay setMode (entry # entries) st =
     (case entry_replay setMode entry st of
        (Some e, st') \<Rightarrow> (Some e, st')
      | (None, st') \<Rightarrow> recording_replay setMode entries st')"

definition startRecording :: "('w, 'a) state \<Rightarrow> nat \<times> ('w, 'a) state" where
  "startRecording st =
     (nextSession st,
      st\<lparr>sessions := (sessions st)(nextSession st \<mapsto> []), nextSession := nextSession st + 1\<rparr>)"

definition complete :: "nat \<Rightarrow> ('w, 'a) state \<Rightarrow> ('w, 'a) Entry list \<times> ('w, 'a) state" where
  "complete recording st =
     (case sessions st recording of
        Some entries \<Rightarrow> (entries, st\<lparr>sessions := (sessions st)(recording := None)\<rparr>)
      | None \<Rightarrow> ([], st))"

definition recorder_append :: "('w, 'a) Entry \<Rightarrow> ('w, 'a) state \<Rightarrow> ('w, 'a) state" where
  "recorder_append entry st =
     st\<lparr>history := history st @ [entry],
        sessions := (\<lambda>i. map_option (\<lambda>entries. entries @ [entry]) (sessions st i))\<rparr>"

text \<open>
  \<^verbatim>\<open>recording_play\<close>. After the validation the recording is defined; the branch for
  an undefined one is never taken.
\<close>

definition recording_play ::
  "(string \<Rightarrow> 'w \<Rightarrow> error option \<times> 'w) \<Rightarrow> int \<Rightarrow> string \<Rightarrow> ('w, 'a) state command" where
  "recording_play setMode repetitions register st =
     (let recording = registerRecording st register
      in case validate ''recording'' (recording \<noteq> None)
                (''register '' @ [CHR 0x22] @ register @ [CHR 0x22]
                   @ '' does not hold a recording'') of
           Some e \<Rightarrow> (Some e, st)
         | None \<Rightarrow>
             (case recording of
                Some r \<Rightarrow> for_repetitions 0 repetitions (recording_replay setMode r) st
              | None \<Rightarrow> (Some TypeError, st)))"

definition recording_start :: "string \<Rightarrow> ('w, 'a) state command" where
  "recording_start register st =
     (case validate ''register'' (recordingPerRegister st register = None)
             ''a recording is already active'' of
        Some e \<Rightarrow> (Some e, st)
      | None \<Rightarrow>
          (case startRecording st of
             (recording, st1) \<Rightarrow>
               (None, st1\<lparr>recordingPerRegister :=
                             (recordingPerRegister st1)(register \<mapsto> recording)\<rparr>)))"

definition recording_stop :: "string \<Rightarrow> ('w, 'a) state command" where
  "recording_stop register st =
     (let recording = recordingPerRegister st register
      in case validate ''register'' (recording \<noteq> None)
                ''no recording is active in the given register'' of
           Some e \<Rightarrow> (Some e, st)
         | None \<Rightarrow>
             (case recording of
                Some r \<Rightarrow>
                  (let st1 = st\<lparr>recordingPerRegister :=
                                   (recordingPerRegister st)(register := None)\<rparr>
                   in case complete r st1 of
                        (sealed, st2) \<Rightarrow>
                          (None, st2\<lparr>registerRecording :=
                                         (registerRecording st2)(register \<mapsto> sealed)\<rparr>))
              | None \<Rightarrow> (Some TypeError, st)))"

subsection \<open>Vocabulary of the properties\<close>

text \<open>An entry that the search of \<open>repeat\<close> accepts under a filter.\<close>

definition eligible :: "RegExp \<Rightarrow> ('w, 'a) Entry \<Rightarrow> bool" where
  "eligible flt e =
     (case e of
        ExecuteCommand d a \<Rightarrow> shouldBeReplayed d \<and> test flt (descriptor_identifier d)
      | ChangeTextEditorMode m \<Rightarrow> False)"

text \<open>The entries from a start cursor to an end cursor, both included.\<close>

definition span_entries :: "'e list \<Rightarrow> cursor \<Rightarrow> cursor \<Rightarrow> 'e list" where
  "span_entries lg s e = take (Suc e - s) (drop s lg)"

text \<open>The invocation that replaying an entry adds to the trace.\<close>

definition entry_event :: "('w, 'a) Entry \<Rightarrow> 'a event" where
  "entry_event entry =
     (case entry of
        ExecuteCommand d a \<Rightarrow> Replayed (descriptor_identifier d) a
      | ChangeTextEditorMode m \<Rightarrow> ModeChanged m)"

text \<open>
  A span whose start follows a mode change to insert, whose end precedes a mode change
  to normal, and that holds at least one entry.
\<close>

definition bracketed :: "('w, 'a) Entry list \<Rightarrow> cursor \<Rightarrow> cursor \<Rightarrow> bool" where
  "bracketed lg s e =
     (0 < s \<and> s \<le> e \<and> Suc e < length lg
      \<and> lg ! (s - 1) = ChangeTextEditorMode ''insert''
      \<and> lg ! Suc e = ChangeTextEditorMode ''normal'')"



text \<open>
  The recording status of a register: it is recording when the module's map holds an
  active recording for it.
\<close>

datatype status = Idle | Recording

definition recording_status :: "('w, 'a) state \<Rightarrow> string \<Rightarrow> status" where
  "recording_status st register =
     (case recordingPerRegister st register of None \<Rightarrow> Idle | Some recording \<Rightarrow> Recording)"

text \<open>
  The recorder's open sessions are the active recordings of the registers, no two
  registers share one, and session numbers below \<open>nextSession\<close> are the only ones in
  use: every register has at most one open session and every open session has one
  register.
\<close>

definition sessions_owned :: "('w, 'a) state \<Rightarrow> bool" where
  "sessions_owned st =
     (inj_on (recordingPerRegister st) (dom (recordingPerRegister st))
      \<and> ran (recordingPerRegister st) = dom (sessions st)
      \<and> (\<forall>i \<in> dom (sessions st). i < nextSession st))"

text \<open>A run of \<^verbatim>\<open>recording_start\<close> and \<^verbatim>\<open>recording_stop\<close> commands, failed ones included.\<close>

datatype recording_command = Start string | Stop string

fun run_recording_commands ::
  "recording_command list \<Rightarrow> ('w, 'a) state \<Rightarrow> ('w, 'a) state" where
  "run_recording_commands [] st = st"
| "run_recording_commands (Start register # cs) st =
     run_recording_commands cs (snd (recording_start register st))"
| "run_recording_commands (Stop register # cs) st =
     run_recording_commands cs (snd (recording_stop register st))"

text \<open>Setting the cancellation signal of the context.\<close>

definition set_cancelled :: "bool \<Rightarrow> ('w, 'a) state \<Rightarrow> ('w, 'a) state" where
  "set_cancelled b st = st\<lparr>cancellationRequested := b\<rparr>"

text \<open>
  Modelled from the spec: the step of the command dispatcher (not part of the sources at
  hand) that logs a finished command unless the command called \<^verbatim>\<open>doNotRecord()\<close>.
\<close>

definition record_invocation :: "('w, 'a) Entry \<Rightarrow> ('w, 'a) state \<Rightarrow> ('w, 'a) state" where
  "record_invocation entry st = (if shouldRecord st then recorder_append entry st else st)"

subsection \<open>A sample session\<close>

text \<open>
  The editor state of the sample session counts the commands executed; arguments are
  strings. \<open>any_RegExp\<close> is \<^verbatim>\<open>/.+/\<close> on identifiers.
\<close>

definition any_RegExp :: RegExp where
  "any_RegExp = \<lparr>source = ''.+'', flags = [], test = (\<lambda>s. s \<noteq> [])\<rparr>"

definition seek_descriptor :: "(nat, string) CommandDescriptor" where
  "seek_descriptor =
     \<lparr>descriptor_identifier = ''dance.seek'', shouldBeReplayed = True,
      replay = (\<lambda>a w. (None, Suc w))\<rparr>"

definition session_with :: "(nat, string) Entry list \<Rightarrow> (nat, string) state" where
  "session_with lg =
     \<lparr>world = 0, trace = [], cancellationRequested = False, shouldRecord = True,
      history = lg, sessions = Map.empty, nextSession = 0,
      recordingPerRegister = Map.empty, registerRecording = Map.empty\<rparr>"

text \<open>A log with one edit: insert mode, two commands, back to normal mode.\<close>

definition edit_log :: "(nat, string) Entry list" where
  "edit_log =
     [ChangeTextEditorMode ''insert'', ExecuteCommand seek_descriptor ''x'',
      ExecuteCommand seek_descriptor ''y'', ChangeTextEditorMode ''normal'']"

text \<open>
  A session in the middle of a recording on the register \<^verbatim>\<open>@\<close>, which holds an
  older recording.
\<close>

definition macro_session :: "(nat, string) state" where
  "macro_session =
     \<lparr>world = 0, trace = [], cancellationRequested = False, shouldRecord = True,
      history = [ExecuteCommand seek_descriptor ''x'', ExecuteCommand seek_descriptor ''y''],
      sessions = [0 \<mapsto> [ExecuteCommand seek_descriptor ''y'']], nextSession = 1,
      recordingPerRegister = [''@'' \<mapsto> 0],
      registerRecording = [''@'' \<mapsto> [ExecuteCommand seek_descriptor ''x'']]\<rparr>"

text \<open>
  A command that fails once the document has been edited, a log and a register that
  hold it between two commands that succeed, and a regular expression that accepts its
  identifier only.
\<close>

definition flaky_descriptor :: "(nat, string) CommandDescriptor" where
  "flaky_descriptor =
     \<lparr>descriptor_identifier = ''dance.edit'', shouldBeReplayed = True,
      replay = (\<lambda>a w. if w < 1 then (None, Suc w) else (Some (Error ''read-only document''), w))\<rparr>"

definition flaky_log :: "(nat, string) Entry list" where
  "flaky_log =
     [ChangeTextEditorMode ''insert'', ExecuteCommand seek_descriptor ''x'',
      ExecuteCommand flaky_descriptor ''y'', ExecuteCommand seek_descriptor ''z'',
      ChangeTextEditorMode ''normal'']"

definition flaky_session :: "(nat, string) state" where
  "flaky_session =
     \<lparr>world = 0, trace = [], cancellationRequested = False, shouldRecord = True,
      history = flaky_log, sessions = Map.empty, nextSession = 0,
      recordingPerRegister = Map.empty,
      registerRecording =
        [''@'' \<mapsto> [ExecuteCommand seek_descriptor ''x'', ExecuteCommand flaky_descriptor ''y'',
                   ExecuteCommand seek_descriptor ''z'']]\<rparr>"

text \<open>
  What \<^verbatim>\<open>new RegExp\<close> gives on the two patterns that the samples use, on identifiers;
  the sample constructor knows no other pattern and rejects every other string, as
  \<^verbatim>\<open>new RegExp\<close> rejects the string \<^verbatim>\<open>+\<close>. \<open>seek_RegExp\<close> is a RegExp that accepts
  the identifier of \<open>seek_descriptor\<close> only.
\<close>

definition sample_newRegExp :: "string \<Rightarrow> string \<Rightarrow> error + RegExp" where
  "sample_newRegExp s f =
     (if s = ''^dance[.]edit$'' then
        Inr \<lparr>source = s, flags = f, test = (\<lambda>i. i = ''dance.edit'')\<rparr>
      else if s = ''.+'' then
        Inr \<lparr>source = s, flags = f, test = (\<lambda>i. i \<noteq> [])\<rparr>
      else Inl (SyntaxError (''Invalid regular expression: /'' @ s @ ''/'' @ f)))"

definition seek_RegExp :: RegExp where
  "seek_RegExp =
     \<lparr>source = ''^dance[.]seek$'', flags = [], test = (\<lambda>i. i = ''dance.seek'')\<rparr>"

text \<open>A session whose cancellation has been requested.\<close>

definition cancelled_session :: "(nat, string) state" where
  "cancelled_session =
     \<lparr>world = 0, trace = [], cancellationRequested = True, shouldRecord = True,
      history = edit_log, sessions = Map.empty, nextSession = 0,
      recordingPerRegister = Map.empty, registerRecording = Map.empty\<rparr>"

section \<open>Properties\<close>

subsection \<open>The repetition loop\<close>

lemma for_repetitions_ok:
  "(\<And>k. k < nat (n - i) \<Longrightarrow> fst (body (((\<lambda>s. snd (body s)) ^^ k) st)) = None) \<Longrightarrow>
   for_repetitions i n body st = (None, ((\<lambda>s. snd (body s)) ^^ nat (n - i)) st)"
proof (induction i n body st rule: for_repetitions.induct)
  case (1 i n body st)
  show ?case
  proof (cases "i < n")
    case False
    then show ?thesis by (subst for_repetitions.simps) simp
  next
    case True
    then have nat_eq: "nat (n - i) = Suc (nat (n - (i + 1)))" by simp
    have b0: "fst (body st) = None" using "1.prems"[of 0] True by simp
    then obtain st' where b: "body st = (None, st')" by (cases "body st") auto
    have "for_repetitions (i + 1) n body st' =
            (None, ((\<lambda>s. snd (body s)) ^^ nat (n - (i + 1))) st')"
    proof (rule "1.IH"[OF True b[symmetric] refl])
      fix k assume "k < nat (n - (i + 1))"
      then have "Suc k < nat (n - i)" using nat_eq by simp
      from "1.prems"[OF this] show "fst (body (((\<lambda>s. snd (body s)) ^^ k) st')) = None"
        using b by (simp add: funpow_Suc_right del: funpow.simps)
    qed
    then show ?thesis
      using True b by (subst for_repetitions.simps) (simp add: nat_eq funpow_Suc_right del: funpow.simps)
  qed
qed

lemma for_repetitions_fails:
  "(\<And>k. k < m \<Longrightarrow> fst (body (((\<lambda>s. snd (body s)) ^^ k) st)) = None) \<Longrightarrow>
   m < nat (n - i) \<Longrightarrow> body (((\<lambda>s. snd (body s)) ^^ m) st) = (Some e, st') \<Longrightarrow>
   for_repetitions i n body st = (Some e, st')"
proof (induction m arbitrary: i st)
  case 0
  then show ?case by (subst for_repetitions.simps) simp
next
  case (Suc m)
  have b0: "fst (body st) = None" using Suc.prems(1)[of 0] by simp
  then obtain s1 where b: "body st = (None, s1)" by (cases "body st") auto
  have "for_repetitions (i + 1) n body s1 = (Some e, st')"
  proof (rule Suc.IH)
    fix k assume "k < m"
    then have "Suc k < Suc m" by simp
    from Suc.prems(1)[OF this] show "fst (body (((\<lambda>s. snd (body s)) ^^ k) s1)) = None"
      using b by (simp add: funpow_Suc_right del: funpow.simps)
  next
    show "m < nat (n - (i + 1))" using Suc.prems(2) by simp
  next
    show "body (((\<lambda>s. snd (body s)) ^^ m) s1) = (Some e, st')" 
      using Suc.prems(3) b by (simp add: funpow_Suc_right del: funpow.simps)
  qed
  moreover have "i < n" using Suc.prems(2) by simp
  ultimately show ?case using b by (subst for_repetitions.simps) simp
qed

lemma descriptor_replay_funpow:
  "((\<lambda>s. snd (descriptor_replay d a s)) ^^ k) st =
     st\<lparr>world := ((\<lambda>w. snd (replay d a w)) ^^ k) (world st),
        trace := trace st @ replicate k (Replayed (descriptor_identifier d) a)\<rparr>"
proof (induction k)
  case 0
  then show ?case by simp
next
  case (Suc k)
  then show ?case
    by (simp add: descriptor_replay_def split: prod.splits)
       (simp add: replicate_append_same)
qed

subsection \<open>repeat\<close>

lemma repeat_search_found:
  "p \<le> c \<Longrightarrow> p < length lg \<Longrightarrow> lg ! p = ExecuteCommand d a \<Longrightarrow> eligible flt (lg ! p) \<Longrightarrow>
   (\<And>q. p < q \<Longrightarrow> q \<le> c \<Longrightarrow> q < length lg \<Longrightarrow> \<not> eligible flt (lg ! q)) \<Longrightarrow>
   repeat_search flt lg c = Inr (d, a)"
proof (induction flt lg c rule: repeat_search.induct)
  case (1 flt lg c)
  show ?case
  proof (cases "p = c")
    case True
    with "1.prems" show ?thesis
      by (subst repeat_search.simps) (simp add: cursor_entry_def eligible_def)
  next
    case False
    with "1.prems" have pc: "p < c" by simp
    have ne: "c < length lg \<Longrightarrow> \<not> eligible flt (lg ! c)"
      using "1.prems"(5)[of c] pc by simp
    have inner: "(case cursor_entry lg c of
              Some (ExecuteCommand descriptor argument) \<Rightarrow>
                if shouldBeReplayed descriptor \<and> test flt (descriptor_identifier descriptor)
                then Some (descriptor, argument) else None
            | _ \<Rightarrow> None) = None"
      using ne by (auto simp: cursor_entry_def eligible_def split: Entry.splits)
    have prev: "cursor_previous lg c = (True, c - 1)"
      using pc by (simp add: cursor_previous_def)
    have "repeat_search flt lg (c - 1) = Inr (d, a)"
      using "1.IH"[OF inner prev[symmetric] refl] "1.prems" pc by simp
    then show ?thesis
      by (subst repeat_search.simps) (simp add: inner prev)
  qed
qed

lemma repeat_search_none:
  "(\<And>q. q \<le> c \<Longrightarrow> q < length lg \<Longrightarrow> \<not> eligible flt (lg ! q)) \<Longrightarrow>
   repeat_search flt lg c = Inl (Error (''no previous command matching '' @ RegExp_toString flt))"
proof (induction flt lg c rule: repeat_search.induct)
  case (1 flt lg c)
  have ne: "c < length lg \<Longrightarrow> \<not> eligible flt (lg ! c)"
    using "1.prems"[of c] by simp
  have inner: "(case cursor_entry lg c of
            Some (ExecuteCommand descriptor argument) \<Rightarrow>
              if shouldBeReplayed descriptor \<and> test flt (descriptor_identifier descriptor)
              then Some (descriptor, argument) else None
          | _ \<Rightarrow> None) = None"
    using ne by (auto simp: cursor_entry_def eligible_def split: Entry.splits)
  show ?case
  proof (cases "c = 0")
    case True
    with inner show ?thesis
      by (subst repeat_search.simps) (simp add: cursor_previous_def)
  next
    case False
    then have prev: "cursor_previous lg c = (True, c - 1)"
      by (simp add: cursor_previous_def)
    have "repeat_search flt lg (c - 1) = Inl (Error (''no previous command matching '' @ RegExp_toString flt))"
      using "1.IH"[OF inner prev[symmetric] refl] "1.prems" by simp
    then show ?thesis
      by (subst repeat_search.simps) (simp add: inner prev)
  qed
qed

lemma descriptor_replay_fst:
  "fst (descriptor_replay d a st) = fst (replay d a (world st))"
  by (simp add: descriptor_replay_def split_beta)

lemma filter_RegExp_denotes:
  "flt = FilterRegExp r \<or> flt = FilterString pat \<and> newRegExp pat ''u'' = Inr r \<Longrightarrow>
   filter_RegExp newRegExp flt = Inr r"
  by (auto simp: filter_RegExp_def)

text \<open>
  A string filter that is no pattern: \<open>repeat\<close> throws the error of the constructor
  before any search, and the state is untouched.
\<close>

lemma repeat_invalid_pattern:
  "newRegExp pat ''u'' = Inl e \<Longrightarrow>
   repeat newRegExp repetitions (FilterString pat) st = (Some e, st)"
  by (simp add: repeat_def filter_RegExp_def)

text \<open>
  C1. A filter is a RegExp \<open>r\<close>, or a string \<open>pat\<close> that \<^verbatim>\<open>new RegExp(pat, "u")\<close>
  compiles to \<open>r\<close> (a string that is no pattern is no filter: see
  \<open>repeat_invalid_pattern\<close>). For every log and every such filter, \<open>repeat\<close> fails with
  the error \<^verbatim>\<open>no previous command matching /source/flags\<close> of \<open>r\<close>, the state
  untouched, when no entry of the log is a command to be replayed whose identifier
  passes the test of \<open>r\<close>. Otherwise it takes the last such entry of the log and, as
  long as no replay fails, invokes the replay of its descriptor with its captured
  argument exactly \<open>repetitions\<close> times (none for a count below one): the trace grows by
  that many invocations and nothing else changes.
\<close>

theorem repeat_most_recent:
  "flt = FilterRegExp r \<or> flt = FilterString pat \<and> newRegExp pat ''u'' = Inr r \<longrightarrow>
   ((\<forall>q < length (history st). \<not> eligible r (history st ! q)) \<longrightarrow>
      repeat newRegExp repetitions flt st =
        (Some (Error (''no previous command matching '' @ RegExp_toString r)), st))
   \<and> (p < length (history st) \<and> history st ! p = ExecuteCommand d a
        \<and> shouldBeReplayed d \<and> test r (descriptor_identifier d)
        \<and> (\<forall>q. p < q \<and> q < length (history st) \<longrightarrow> \<not> eligible r (history st ! q))
        \<and> (\<forall>k < nat repetitions.
              fst (replay d a (((\<lambda>w. snd (replay d a w)) ^^ k) (world st))) = None) \<longrightarrow>
      repeat newRegExp repetitions flt st =
        (None, st\<lparr>world := ((\<lambda>w. snd (replay d a w)) ^^ nat repetitions) (world st),
                  trace := trace st
                    @ replicate (nat repetitions) (Replayed (descriptor_identifier d) a)\<rparr>))"
proof (intro impI conjI)
  assume "flt = FilterRegExp r \<or> flt = FilterString pat \<and> newRegExp pat ''u'' = Inr r"
  then have f: "filter_RegExp newRegExp flt = Inr r" by (rule filter_RegExp_denotes)
  assume "\<forall>q < length (history st). \<not> eligible r (history st ! q)"
  then have "repeat_search r (history st) (cursorFromEnd (history st))
      = Inl (Error (''no previous command matching '' @ RegExp_toString r))"
    by (intro repeat_search_none) simp
  then show "repeat newRegExp repetitions flt st =
        (Some (Error (''no previous command matching '' @ RegExp_toString r)), st)"
    by (simp add: repeat_def f)
next
  let ?g = "\<lambda>w. snd (replay d a w)"
  assume "flt = FilterRegExp r \<or> flt = FilterString pat \<and> newRegExp pat ''u'' = Inr r"
  then have f: "filter_RegExp newRegExp flt = Inr r" by (rule filter_RegExp_denotes)
  assume h: "p < length (history st) \<and> history st ! p = ExecuteCommand d a
        \<and> shouldBeReplayed d \<and> test r (descriptor_identifier d)
        \<and> (\<forall>q. p < q \<and> q < length (history st) \<longrightarrow> \<not> eligible r (history st ! q))
        \<and> (\<forall>k < nat repetitions. fst (replay d a ((?g ^^ k) (world st))) = None)"
  have found: "repeat_search r (history st) (cursorFromEnd (history st)) = Inr (d, a)"
    using h by (intro repeat_search_found[where p = p]) (auto simp: cursorFromEnd_def eligible_def)
  have ok: "fst (descriptor_replay d a (((\<lambda>s. snd (descriptor_replay d a s)) ^^ k) st)) = None"
    if "k < nat (repetitions - 0)" for k
    using h that by (simp add: descriptor_replay_funpow descriptor_replay_fst)
  have "for_repetitions 0 repetitions (descriptor_replay d a) st =
          (None, ((\<lambda>s. snd (descriptor_replay d a s)) ^^ nat (repetitions - 0)) st)"
    by (rule for_repetitions_ok) (rule ok)
  then show "repeat newRegExp repetitions flt st =
        (None, st\<lparr>world := (?g ^^ nat repetitions) (world st),
                  trace := trace st
                    @ replicate (nat repetitions) (Replayed (descriptor_identifier d) a)\<rparr>)"
    using found by (simp add: repeat_def f descriptor_replay_funpow)
qed

theorem repeat_most_recent_witness:
  "repeat sample_newRegExp 3 (FilterRegExp any_RegExp)
      (session_with [ChangeTextEditorMode ''insert'']) =
     (Some (Error ''no previous command matching /.+/''),
      session_with [ChangeTextEditorMode ''insert''])
   \<and> repeat sample_newRegExp 3 (FilterString ''^dance[.]edit$'') (session_with edit_log) =
     (Some (Error ''no previous command matching /^dance[.]edit$/u''), session_with edit_log)
   \<and> repeat sample_newRegExp 1 (FilterString ''^dance[.]edit$'') flaky_session =
     (None, flaky_session\<lparr>world := 1, trace := [Replayed ''dance.edit'' ''y'']\<rparr>)
   \<and> repeat sample_newRegExp 2 (FilterRegExp seek_RegExp)
      (session_with [ExecuteCommand seek_descriptor ''x'', ExecuteCommand flaky_descriptor ''y'',
                     ChangeTextEditorMode ''normal'']) =
     (None, (session_with [ExecuteCommand seek_descriptor ''x'',
                     ExecuteCommand flaky_descriptor ''y'', ChangeTextEditorMode ''normal''])
        \<lparr>world := 2, trace := [Replayed ''dance.seek'' ''x'', Replayed ''dance.seek'' ''x'']\<rparr>)"
proof -
  let ?edit = "\<lparr>source = ''^dance[.]edit$'', flags = ''u'', test = (\<lambda>i. i = ''dance.edit'')\<rparr>"
  have new: "sample_newRegExp ''^dance[.]edit$'' ''u'' = Inr ?edit"
    by (simp add: sample_newRegExp_def)
  have a: "repeat sample_newRegExp 3 (FilterRegExp any_RegExp)
      (session_with [ChangeTextEditorMode ''insert'']) =
     (Some (Error ''no previous command matching /.+/''),
      session_with [ChangeTextEditorMode ''insert''])"
    using repeat_most_recent [of "FilterRegExp any_RegExp" any_RegExp "[]" sample_newRegExp
        "session_with [ChangeTextEditorMode ''insert'']" 3 0 seek_descriptor "''x''"]
    by (simp add: session_with_def eligible_def any_RegExp_def RegExp_toString_def)
  have b: "repeat sample_newRegExp 3 (FilterString ''^dance[.]edit$'') (session_with edit_log) =
     (Some (Error ''no previous command matching /^dance[.]edit$/u''), session_with edit_log)"
    using repeat_most_recent [of "FilterString ''^dance[.]edit$''" ?edit "''^dance[.]edit$''"
        sample_newRegExp "session_with edit_log" 3 0 seek_descriptor "''x''"] new
    by (simp add: session_with_def edit_log_def eligible_def seek_descriptor_def
          RegExp_toString_def less_Suc_eq numeral_eq_Suc nth_Cons')
  have c: "repeat sample_newRegExp 1 (FilterString ''^dance[.]edit$'') flaky_session =
     (None, flaky_session\<lparr>world := 1, trace := [Replayed ''dance.edit'' ''y'']\<rparr>)"
    using repeat_most_recent [of "FilterString ''^dance[.]edit$''" ?edit "''^dance[.]edit$''"
        sample_newRegExp flaky_session 1 2 flaky_descriptor "''y''"] new
    by (simp add: flaky_session_def flaky_log_def eligible_def seek_descriptor_def
          flaky_descriptor_def less_Suc_eq numeral_eq_Suc nth_Cons')
  have d: "repeat sample_newRegExp 2 (FilterRegExp seek_RegExp)
      (session_with [ExecuteCommand seek_descriptor ''x'', ExecuteCommand flaky_descriptor ''y'',
                     ChangeTextEditorMode ''normal'']) =
     (None, (session_with [ExecuteCommand seek_descriptor ''x'',
                     ExecuteCommand flaky_descriptor ''y'', ChangeTextEditorMode ''normal''])
        \<lparr>world := 2, trace := [Replayed ''dance.seek'' ''x'', Replayed ''dance.seek'' ''x'']\<rparr>)"
    using repeat_most_recent [of "FilterRegExp seek_RegExp" seek_RegExp "[]" sample_newRegExp
        "session_with [ExecuteCommand seek_descriptor ''x'', ExecuteCommand flaky_descriptor ''y'',
                     ChangeTextEditorMode ''normal'']" 2 0 seek_descriptor "''x''"]
    by (simp add: session_with_def eligible_def seek_RegExp_def seek_descriptor_def
          flaky_descriptor_def less_Suc_eq numeral_eq_Suc nth_Cons')
  from a b c d show ?thesis by blast
qed

subsection \<open>repeat\_edit: the search\<close>

lemma scan_step_normal:
  "c < length lg \<Longrightarrow> lg ! c = ChangeTextEditorMode ''normal'' \<Longrightarrow>
   scan_step lg c e = Continue (c - 1) (Some (c - 1))"
  by (simp add: scan_step_def cursor_entry_def cursor_previous_def Let_def)

lemma scan_step_insert:
  "c < length lg \<Longrightarrow> lg ! c = ChangeTextEditorMode ''insert'' \<Longrightarrow>
   scan_step lg c (Some e) = Break (Suc c) e"
  by (simp add: scan_step_def cursor_entry_def cursor_next_def)

lemma scan_step_other:
  "(c < length lg \<Longrightarrow> lg ! c \<noteq> ChangeTextEditorMode ''normal'') \<Longrightarrow>
   (c < length lg \<Longrightarrow> e \<noteq> None \<Longrightarrow> lg ! c \<noteq> ChangeTextEditorMode ''insert'') \<Longrightarrow>
   scan_step lg c e = Continue c e"
  by (auto simp: scan_step_def cursor_entry_def split: Entry.splits option.splits)

lemma scan_step_cases:
  obtains (normal) "c < length lg" "lg ! c = ChangeTextEditorMode ''normal''"
            "scan_step lg c e = Continue (c - 1) (Some (c - 1))"
  | (insert) e0 where "c < length lg" "lg ! c = ChangeTextEditorMode ''insert''" "e = Some e0"
            "scan_step lg c e = Break (Suc c) e0"
  | (other) "scan_step lg c e = Continue c e"
proof (cases "c < length lg \<and> lg ! c = ChangeTextEditorMode ''normal''")
  case True
  then show ?thesis using normal scan_step_normal by blast
next
  case nn: False
  show ?thesis
  proof (cases "c < length lg \<and> lg ! c = ChangeTextEditorMode ''insert'' \<and> e \<noteq> None")
    case True
    then obtain e0 where "e = Some e0" by auto
    with True show ?thesis using insert scan_step_insert by blast
  next
    case False
    with nn have "scan_step lg c e = Continue c e"
      by (intro scan_step_other) auto
    then show ?thesis by (rule other)
  qed
qed

lemma edit_span_search_sound:
  "edit_span_search lg c endC = Inr (s, e) \<Longrightarrow>
   (\<And>e0. endC = Some e0 \<Longrightarrow>
      c < e0 \<and> Suc e0 < length lg \<and> lg ! Suc e0 = ChangeTextEditorMode ''normal'') \<Longrightarrow>
   bracketed lg s e"
proof (induction lg c endC rule: edit_span_search.induct)
  case (1 lg c endC)
  show ?case
  proof (cases rule: scan_step_cases[of c lg endC])
    case normal
    from "1.prems"(1) normal obtain c2 where
      p: "cursor_previous lg (c - 1) = (True, c2)" and
      r: "edit_span_search lg c2 (Some (c - 1)) = Inr (s, e)"
      by (subst (asm) edit_span_search.simps) (auto split: prod.splits bool.splits)
    from p have c2: "c2 = c - 2" "2 \<le> c"
      by (auto simp: cursor_previous_def split: if_splits)
    show ?thesis
    proof (rule "1.IH"[OF normal(3) p[symmetric] refl r])
      fix e0 assume "Some (c - 1) = Some e0"
      then show "c2 < e0 \<and> Suc e0 < length lg \<and> lg ! Suc e0 = ChangeTextEditorMode ''normal''"
        using c2 normal by auto
    qed
  next
    case (insert e0)
    from "1.prems"(1) insert have "s = Suc c" "e = e0"
      by (subst (asm) edit_span_search.simps, simp)+
    with "1.prems"(2)[OF insert(3)] insert show ?thesis
      by (simp add: bracketed_def)
  next
    case other
    from "1.prems"(1) other obtain c2 where
      p: "cursor_previous lg c = (True, c2)" and
      r: "edit_span_search lg c2 endC = Inr (s, e)"
      by (subst (asm) edit_span_search.simps) (auto split: prod.splits bool.splits)
    from p have c2: "c2 < c"
      by (auto simp: cursor_previous_def split: if_splits)
    show ?thesis
    proof (rule "1.IH"[OF other p[symmetric] refl r])
      fix e0 assume "endC = Some e0"
      from "1.prems"(2)[OF this] c2
      show "c2 < e0 \<and> Suc e0 < length lg \<and> lg ! Suc e0 = ChangeTextEditorMode ''normal''"
        by simp
    qed
  qed
qed








subsection \<open>repeat\_edit: the replay\<close>

lemma span_entries_Cons:
  "c \<le> e \<Longrightarrow> e < length lg \<Longrightarrow> span_entries lg c e = lg ! c # span_entries lg (Suc c) e"
proof -
  assume a: "c \<le> e" "e < length lg"
  then have "drop c lg = lg ! c # drop (Suc c) lg"
    by (simp add: Cons_nth_drop_Suc)
  moreover from a have "Suc e - c = Suc (Suc e - Suc c)" by arith
  ultimately show ?thesis by (simp add: span_entries_def)
qed

lemma replay_span_entries:
  "e < length lg \<Longrightarrow>
   replay_span setMode lg e c st = recording_replay setMode (span_entries lg c e) st"
proof (induction setMode lg e c st rule: replay_span.induct)
  case (1 setMode lg e c st)
  show ?case
  proof (cases "c \<le> e")
    case False
    then show ?thesis
      by (subst replay_span.simps) (simp add: isBeforeOrEqual_def span_entries_def)
  next
    case True
    with "1.prems" have c: "c < length lg" by simp
    then have cr: "cursor_replay setMode lg c st = entry_replay setMode (lg ! c) st"
      by (simp add: cursor_replay_def cursor_entry_def)
    have nx: "snd (cursor_next lg c) = Suc c"
      using c by (simp add: cursor_next_def)
    obtain r st' where er: "entry_replay setMode (lg ! c) st = (r, st')"
      by (cases "entry_replay setMode (lg ! c) st")
    show ?thesis
    proof (cases r)
      case (Some x)
      with True "1.prems" cr er show ?thesis
        by (subst replay_span.simps) (simp add: isBeforeOrEqual_def span_entries_Cons)
    next
      case None
      have ib: "isBeforeOrEqual c e" using True by (simp add: isBeforeOrEqual_def)
      have cr': "(None, st') = cursor_replay setMode lg c st"
        using cr er None by simp
      have "replay_span setMode lg e (snd (cursor_next lg c)) st' =
              recording_replay setMode (span_entries lg (snd (cursor_next lg c)) e) st'"
        by (rule "1.IH"[OF ib cr' refl "1.prems"])
      with True "1.prems" cr er None nx show ?thesis
        by (subst replay_span.simps) (simp add: isBeforeOrEqual_def span_entries_Cons)
    qed
  qed
qed

lemma entry_replay_trace:
  "trace (snd (entry_replay setMode x st)) = trace st @ [entry_event x]"
  by (cases x) (simp_all add: entry_replay_def descriptor_replay_def entry_event_def split_beta)

lemma recording_replay_ok:
  "(\<And>x st'. x \<in> set es \<Longrightarrow> fst (entry_replay setMode x st') = None) \<Longrightarrow>
   fst (recording_replay setMode es st) = None
   \<and> trace (snd (recording_replay setMode es st)) = trace st @ map entry_event es"
proof (induction es arbitrary: st)
  case Nil
  then show ?case by simp
next
  case (Cons x es)
  obtain r st' where er: "entry_replay setMode x st = (r, st')"
    by (cases "entry_replay setMode x st")
  have "r = None" using Cons.prems[of x st] er by simp
  moreover have "trace st' = trace st @ [entry_event x]"
    using entry_replay_trace[of setMode x st] er by simp
  moreover have "fst (recording_replay setMode es st') = None
     \<and> trace (snd (recording_replay setMode es st')) = trace st' @ map entry_event es"
    using Cons.prems by (intro Cons.IH) simp
  ultimately show ?case using er by simp
qed

lemma concat_replicate_snoc:
  "concat (replicate k xs) @ xs = concat (replicate (Suc k) xs)"
  by (induction k) simp_all

lemma recording_replay_funpow_trace:
  "(\<And>x st'. x \<in> set es \<Longrightarrow> fst (entry_replay setMode x st') = None) \<Longrightarrow>
   trace (((\<lambda>s. snd (recording_replay setMode es s)) ^^ k) st)
     = trace st @ concat (replicate k (map entry_event es))"
proof (induction k)
  case 0
  then show ?case by simp
next
  case (Suc k)
  have "trace (((\<lambda>s. snd (recording_replay setMode es s)) ^^ Suc k) st)
          = (trace st @ concat (replicate k (map entry_event es))) @ map entry_event es"
    using Suc by (simp add: recording_replay_ok)
  then show ?case
    by (simp only: append_assoc concat_replicate_snoc)
qed

lemma for_repetitions_recording_replay:
  "(\<And>x st'. x \<in> set es \<Longrightarrow> fst (entry_replay setMode x st') = None) \<Longrightarrow>
   fst (for_repetitions 0 n (recording_replay setMode es) st) = None
   \<and> trace (snd (for_repetitions 0 n (recording_replay setMode es) st))
       = trace st @ concat (replicate (nat n) (map entry_event es))"
proof -
  assume ok: "\<And>x st'. x \<in> set es \<Longrightarrow> fst (entry_replay setMode x st') = None"
  have "for_repetitions 0 n (recording_replay setMode es) st =
          (None, ((\<lambda>s. snd (recording_replay setMode es s)) ^^ nat (n - 0)) st)"
    by (rule for_repetitions_ok) (simp add: recording_replay_ok ok)
  then show ?thesis
    using recording_replay_funpow_trace[of es setMode "nat n" st] ok by simp
qed

text \<open>
  C3. Once the span is found, \<open>repeat_edit\<close> is the repetition loop over the replay of
  the span's entries from the start cursor to the end cursor, in the order of the log,
  stopping at the first replay that fails; when no replay fails, the whole sequence of
  the span is replayed \<open>repetitions\<close> times, in order.
\<close>

theorem repeat_edit_whole_span:
  "edit_span_search (history st) (cursorFromEnd (history st)) None = Inr (s, e) \<longrightarrow>
     repeat_edit setMode repetitions st =
       for_repetitions 0 repetitions
         (recording_replay setMode (span_entries (history st) s e)) (doNotRecord st)
     \<and> ((\<forall>x \<in> set (span_entries (history st) s e). \<forall>st'.
            fst (entry_replay setMode x st') = None) \<longrightarrow>
          fst (repeat_edit setMode repetitions st) = None
          \<and> trace (snd (repeat_edit setMode repetitions st)) =
              trace st @ concat (replicate (nat repetitions)
                                   (map entry_event (span_entries (history st) s e))))"
proof (intro impI)
  assume found: "edit_span_search (history st) (cursorFromEnd (history st)) None = Inr (s, e)"
  then have "bracketed (history st) s e"
    by (rule edit_span_search_sound) simp
  then have e: "e < length (history st)" by (simp add: bracketed_def)
  have rs: "replay_span setMode (history st) e s =
              recording_replay setMode (span_entries (history st) s e)"
    using replay_span_entries[OF e] by (intro ext)
  have eq: "repeat_edit setMode repetitions st =
       for_repetitions 0 repetitions
         (recording_replay setMode (span_entries (history st) s e)) (doNotRecord st)"
    using found by (simp add: repeat_edit_def doNotRecord_def rs)
  show "repeat_edit setMode repetitions st =
       for_repetitions 0 repetitions
         (recording_replay setMode (span_entries (history st) s e)) (doNotRecord st)
     \<and> ((\<forall>x \<in> set (span_entries (history st) s e). \<forall>st'.
            fst (entry_replay setMode x st') = None) \<longrightarrow>
          fst (repeat_edit setMode repetitions st) = None
          \<and> trace (snd (repeat_edit setMode repetitions st)) =
              trace st @ concat (replicate (nat repetitions)
                                   (map entry_event (span_entries (history st) s e))))"
  proof (intro conjI impI)
    show "repeat_edit setMode repetitions st =
       for_repetitions 0 repetitions
         (recording_replay setMode (span_entries (history st) s e)) (doNotRecord st)"
      by (rule eq)
  next
    assume ok: "\<forall>x \<in> set (span_entries (history st) s e). \<forall>st'.
            fst (entry_replay setMode x st') = None"
    from for_repetitions_recording_replay[of "span_entries (history st) s e" setMode
           repetitions "doNotRecord st"] ok
    show "fst (repeat_edit setMode repetitions st) = None"
      by (simp add: eq)
  next
    assume ok: "\<forall>x \<in> set (span_entries (history st) s e). \<forall>st'.
            fst (entry_replay setMode x st') = None"
    from for_repetitions_recording_replay[of "span_entries (history st) s e" setMode
           repetitions "doNotRecord st"] ok
    show "trace (snd (repeat_edit setMode repetitions st)) =
              trace st @ concat (replicate (nat repetitions)
                                   (map entry_event (span_entries (history st) s e)))"
      by (simp add: eq doNotRecord_def)
  qed
qed

theorem repeat_edit_whole_span_witness:
  "fst (repeat_edit (\<lambda>m w. (None, w)) 2 (session_with edit_log)) = None
   \<and> trace (snd (repeat_edit (\<lambda>m w. (None, w)) 2 (session_with edit_log))) =
       [Replayed ''dance.seek'' ''x'', Replayed ''dance.seek'' ''y'',
        Replayed ''dance.seek'' ''x'', Replayed ''dance.seek'' ''y'']"
proof -
  have found: "edit_span_search (history (session_with edit_log))
      (cursorFromEnd (history (session_with edit_log))) None = Inr (1, 2)"
    by (simp add: session_with_def edit_log_def cursorFromEnd_def edit_span_search.simps
        scan_step_def cursor_entry_def cursor_previous_def cursor_next_def numeral_eq_Suc)
  have span: "span_entries (history (session_with edit_log)) 1 2 =
      [ExecuteCommand seek_descriptor ''x'', ExecuteCommand seek_descriptor ''y'']"
    by (simp add: session_with_def edit_log_def span_entries_def numeral_eq_Suc)
  have ok: "\<forall>x \<in> set (span_entries (history (session_with edit_log)) 1 2). \<forall>st'.
      fst (entry_replay (\<lambda>m w. (None, w)) x st') = None"
    unfolding span by (simp add: entry_replay_def descriptor_replay_def seek_descriptor_def)
  have rhs: "trace (session_with edit_log) @ concat (replicate (nat 2)
        (map entry_event (span_entries (history (session_with edit_log)) 1 2))) =
       [Replayed ''dance.seek'' ''x'', Replayed ''dance.seek'' ''y'',
        Replayed ''dance.seek'' ''x'', Replayed ''dance.seek'' ''y'']"
    unfolding span
    by (simp add: entry_event_def seek_descriptor_def session_with_def numeral_eq_Suc)
  from repeat_edit_whole_span [of "session_with edit_log" 1 2 "\<lambda>m w. (None, w)" 2]
    found ok
  have "fst (repeat_edit (\<lambda>m w. (None, w)) 2 (session_with edit_log)) = None
     \<and> trace (snd (repeat_edit (\<lambda>m w. (None, w)) 2 (session_with edit_log))) =
        trace (session_with edit_log) @ concat (replicate (nat 2)
          (map entry_event (span_entries (history (session_with edit_log)) 1 2)))"
    by blast
  then show ?thesis by (simp only: rhs)
qed

subsection \<open>recording\_play\<close>

text \<open>
  C4. \<open>recording_play\<close> fails with an argument error on \<^verbatim>\<open>recording\<close>, the state
  untouched, when the register holds no recording. Otherwise it is the repetition loop
  over the replay of the whole recording, and when no replay fails the entries of the
  recording are replayed in order \<open>repetitions\<close> times.
\<close>

theorem recording_play_register:
  "(registerRecording st register = None \<longrightarrow>
      recording_play setMode repetitions register st =
        (Some (ArgumentError
                 (''register '' @ [CHR 0x22] @ register @ [CHR 0x22]
                    @ '' does not hold a recording'') ''recording''), st))
   \<and> (registerRecording st register = Some r \<longrightarrow>
        recording_play setMode repetitions register st =
          for_repetitions 0 repetitions (recording_replay setMode r) st
        \<and> ((\<forall>x \<in> set r. \<forall>st'. fst (entry_replay setMode x st') = None) \<longrightarrow>
             fst (recording_play setMode repetitions register st) = None
             \<and> trace (snd (recording_play setMode repetitions register st)) =
                 trace st @ concat (replicate (nat repetitions) (map entry_event r))))"
proof (intro conjI impI)
  assume "registerRecording st register = None"
  then show "recording_play setMode repetitions register st =
        (Some (ArgumentError
                 (''register '' @ [CHR 0x22] @ register @ [CHR 0x22]
                    @ '' does not hold a recording'') ''recording''), st)"
    by (simp add: recording_play_def validate_def)
next
  assume "registerRecording st register = Some r"
  then show "recording_play setMode repetitions register st =
          for_repetitions 0 repetitions (recording_replay setMode r) st"
    by (simp add: recording_play_def validate_def)
next
  assume r: "registerRecording st register = Some r"
    and ok: "\<forall>x \<in> set r. \<forall>st'. fst (entry_replay setMode x st') = None"
  from r have eq: "recording_play setMode repetitions register st =
          for_repetitions 0 repetitions (recording_replay setMode r) st"
    by (simp add: recording_play_def validate_def)
  from for_repetitions_recording_replay[of r setMode repetitions st] ok
  show "fst (recording_play setMode repetitions register st) = None"
    by (simp add: eq)
next
  assume r: "registerRecording st register = Some r"
    and ok: "\<forall>x \<in> set r. \<forall>st'. fst (entry_replay setMode x st') = None"
  from r have eq: "recording_play setMode repetitions register st =
          for_repetitions 0 repetitions (recording_replay setMode r) st"
    by (simp add: recording_play_def validate_def)
  from for_repetitions_recording_replay[of r setMode repetitions st] ok
  show "trace (snd (recording_play setMode repetitions register st)) =
                 trace st @ concat (replicate (nat repetitions) (map entry_event r))"
    by (simp add: eq)
qed

theorem recording_play_register_witness:
  "recording_play (\<lambda>m w. (None, w)) 2 ''@'' (session_with []) =
     (Some (ArgumentError
              (''register '' @ [CHR 0x22] @ ''@'' @ [CHR 0x22] @ '' does not hold a recording'')
              ''recording''), session_with [])
   \<and> fst (recording_play (\<lambda>m w. (None, w)) 2 ''@'' macro_session) = None
   \<and> trace (snd (recording_play (\<lambda>m w. (None, w)) 2 ''@'' macro_session)) =
       [Replayed ''dance.seek'' ''x'', Replayed ''dance.seek'' ''x'']"
proof -
  have a: "recording_play (\<lambda>m w. (None, w)) 2 ''@'' (session_with []) =
     (Some (ArgumentError
              (''register '' @ [CHR 0x22] @ ''@'' @ [CHR 0x22] @ '' does not hold a recording'')
              ''recording''), session_with [])"
    using recording_play_register [of "session_with []" "''@''" "\<lambda>m w. (None, w)" 2 "[]"]
    by (simp add: session_with_def)
  have r: "registerRecording macro_session ''@'' = Some [ExecuteCommand seek_descriptor ''x'']"
    by (simp add: macro_session_def)
  have ok: "\<forall>x \<in> set [ExecuteCommand seek_descriptor ''x'']. \<forall>st'::(nat, string) state.
      fst (entry_replay (\<lambda>m w. (None, w)) x st') = None"
    by (simp add: entry_replay_def descriptor_replay_def seek_descriptor_def)
  have rhs: "trace macro_session @ concat (replicate (nat 2)
        (map entry_event [ExecuteCommand seek_descriptor ''x''])) =
       [Replayed ''dance.seek'' ''x'', Replayed ''dance.seek'' ''x'']"
    by (simp add: entry_event_def seek_descriptor_def macro_session_def numeral_eq_Suc)
  from recording_play_register [of macro_session "''@''" "\<lambda>m w. (None, w)" 2
      "[ExecuteCommand seek_descriptor ''x'']"] r ok
  have "fst (recording_play (\<lambda>m w. (None, w)) 2 ''@'' macro_session) = None
     \<and> trace (snd (recording_play (\<lambda>m w. (None, w)) 2 ''@'' macro_session)) =
        trace macro_session @ concat (replicate (nat 2)
          (map entry_event [ExecuteCommand seek_descriptor ''x'']))"
    by blast
  then have "fst (recording_play (\<lambda>m w. (None, w)) 2 ''@'' macro_session) = None
     \<and> trace (snd (recording_play (\<lambda>m w. (None, w)) 2 ''@'' macro_session)) =
       [Replayed ''dance.seek'' ''x'', Replayed ''dance.seek'' ''x'']"
    by (simp only: rhs)
  with a show ?thesis by blast
qed

subsection \<open>recording\_start and recording\_stop\<close>

lemma recording_start_idle:
  "recordingPerRegister st r = None \<Longrightarrow>
   recording_start r st =
     (None, st\<lparr>sessions := (sessions st)(nextSession st \<mapsto> []),
               nextSession := nextSession st + 1,
               recordingPerRegister := (recordingPerRegister st)(r \<mapsto> nextSession st)\<rparr>)"
  by (simp add: recording_start_def validate_def startRecording_def)

lemma recording_start_active:
  "recordingPerRegister st r = Some i \<Longrightarrow>
   recording_start r st = (Some (ArgumentError ''a recording is already active'' ''register''), st)"
  by (simp add: recording_start_def validate_def)

lemma recording_stop_idle:
  "recordingPerRegister st r = None \<Longrightarrow>
   recording_stop r st =
     (Some (ArgumentError ''no recording is active in the given register'' ''register''), st)"
  by (simp add: recording_stop_def validate_def)

lemma recording_stop_active:
  "recordingPerRegister st r = Some i \<Longrightarrow> sessions st i = Some es \<Longrightarrow>
   recording_stop r st =
     (None, st\<lparr>recordingPerRegister := (recordingPerRegister st)(r := None),
               sessions := (sessions st)(i := None),
               registerRecording := (registerRecording st)(r \<mapsto> es)\<rparr>)"
  by (simp add: recording_stop_def validate_def complete_def)

lemma recording_stop_status:
  "recordingPerRegister st r = Some i \<Longrightarrow>
   fst (recording_stop r st) = None \<and> recordingPerRegister (snd (recording_stop r st)) r = None"
  by (simp add: recording_stop_def validate_def complete_def Let_def split: option.splits)

lemma recording_stop_others:
  "r' \<noteq> r \<Longrightarrow>
   recordingPerRegister (snd (recording_stop r st)) r' = recordingPerRegister st r'"
  by (simp add: recording_stop_def validate_def complete_def Let_def split: option.splits)

lemma sessions_owned_start: "sessions_owned st \<Longrightarrow> sessions_owned (snd (recording_start r st))"
proof (cases "recordingPerRegister st r")
  case (Some i)
  assume "sessions_owned st"
  then show ?thesis using Some by (simp add: recording_start_active)
next
  case None
  assume inv: "sessions_owned st"
  let ?n = "nextSession st"
  have fresh: "?n \<notin> dom (sessions st)" "?n \<notin> ran (recordingPerRegister st)"
    using inv by (auto simp: sessions_owned_def)
  have nr: "recordingPerRegister st x \<noteq> Some ?n" for x
    using fresh(2) by (auto simp: ran_def)
  have inj: "inj_on (recordingPerRegister st) (dom (recordingPerRegister st))"
    using inv by (simp add: sessions_owned_def)
  have "inj_on ((recordingPerRegister st)(r \<mapsto> ?n)) (dom ((recordingPerRegister st)(r \<mapsto> ?n)))"
  proof (rule inj_onI)
    fix x y
    assume x: "x \<in> dom ((recordingPerRegister st)(r \<mapsto> ?n))"
      and y: "y \<in> dom ((recordingPerRegister st)(r \<mapsto> ?n))"
      and eq: "((recordingPerRegister st)(r \<mapsto> ?n)) x = ((recordingPerRegister st)(r \<mapsto> ?n)) y"
    show "x = y"
    proof (cases "x = r \<or> y = r")
      case True
      with eq nr[of x] nr[of y] show ?thesis by (auto split: if_splits)
    next
      case False
      with x y eq have "x \<in> dom (recordingPerRegister st)" "y \<in> dom (recordingPerRegister st)"
        "recordingPerRegister st x = recordingPerRegister st y"
        by auto
      with inj show ?thesis by (auto dest: inj_onD)
    qed
  qed
  moreover have "ran ((recordingPerRegister st)(r \<mapsto> ?n)) = dom ((sessions st)(?n \<mapsto> []))"
    using inv None by (simp add: sessions_owned_def)
  moreover have "\<forall>i \<in> dom ((sessions st)(?n \<mapsto> [])). i < ?n + 1"
  proof
    fix i assume "i \<in> dom ((sessions st)(?n \<mapsto> []))"
    then consider "i = ?n" | "i \<in> dom (sessions st)" by auto
    then show "i < ?n + 1"
    proof cases
      case 1
      then show ?thesis by simp
    next
      case 2
      with inv have "i < ?n" by (simp add: sessions_owned_def)
      then show ?thesis by simp
    qed
  qed
  ultimately show ?thesis
    using None by (simp add: recording_start_idle sessions_owned_def)
qed

lemma sessions_owned_stop: "sessions_owned st \<Longrightarrow> sessions_owned (snd (recording_stop r st))"
proof (cases "recordingPerRegister st r")
  case None
  assume "sessions_owned st"
  then show ?thesis using None by (simp add: recording_stop_idle)
next
  case (Some i)
  assume inv: "sessions_owned st"
  then have "i \<in> dom (sessions st)" using Some by (auto simp: sessions_owned_def ran_def)
  then obtain es where es: "sessions st i = Some es" by auto
  have inj: "inj_on (recordingPerRegister st) (dom (recordingPerRegister st))"
    using inv by (simp add: sessions_owned_def)
  have "inj_on ((recordingPerRegister st)(r := None)) (dom ((recordingPerRegister st)(r := None)))"
    using inj by (auto simp: inj_on_def dom_def)
  moreover have "ran ((recordingPerRegister st)(r := None)) = dom ((sessions st)(i := None))"
  proof -
    have "ran ((recordingPerRegister st)(r := None)) = ran (recordingPerRegister st) - {i}"
    proof (rule set_eqI)
      fix j
      show "j \<in> ran ((recordingPerRegister st)(r := None)) \<longleftrightarrow> j \<in> ran (recordingPerRegister st) - {i}"
      proof
        assume "j \<in> ran ((recordingPerRegister st)(r := None))"
        then obtain r' where r': "r' \<noteq> r" "recordingPerRegister st r' = Some j"
          by (auto simp: ran_def split: if_splits)
        have "j \<noteq> i"
        proof
          assume "j = i"
          with r' Some inj have "r' = r" by (auto simp: inj_on_def dom_def)
          with r' show False by simp
        qed
        with r' show "j \<in> ran (recordingPerRegister st) - {i}" by (auto simp: ran_def)
      next
        assume "j \<in> ran (recordingPerRegister st) - {i}"
        then obtain r' where r': "recordingPerRegister st r' = Some j" "j \<noteq> i"
          by (auto simp: ran_def)
        with Some have "r' \<noteq> r" by auto
        with r' show "j \<in> ran ((recordingPerRegister st)(r := None))" by (auto simp: ran_def)
      qed
    qed
    then show ?thesis using inv by (auto simp: sessions_owned_def)
  qed
  moreover have "\<forall>j \<in> dom ((sessions st)(i := None)). j < nextSession st"
    using inv by (auto simp: sessions_owned_def)
  ultimately show ?thesis
    using Some es by (simp add: recording_stop_active sessions_owned_def)
qed

lemma sessions_owned_run:
  "sessions_owned st \<Longrightarrow> sessions_owned (run_recording_commands cs st)"
proof (induction cs arbitrary: st)
  case Nil
  then show ?case by simp
next
  case (Cons c cs)
  then show ?case
    by (cases c) (simp_all add: sessions_owned_start sessions_owned_stop)
qed

lemma recording_status_Idle: "recording_status st r = Idle \<longleftrightarrow> recordingPerRegister st r = None"
  by (simp add: recording_status_def split: option.splits)

lemma recording_status_Recording:
  "recording_status st r = Recording \<longleftrightarrow> (\<exists>i. recordingPerRegister st r = Some i)"
  by (simp add: recording_status_def split: option.splits)

text \<open>
  C5. The recording status of a register follows Idle, Recording, Idle:
  \<open>recording_start\<close> succeeds exactly from Idle and leads to Recording, where a second
  \<open>recording_start\<close> fails with the argument error \<^verbatim>\<open>a recording is already active\<close>;
  \<open>recording_stop\<close> succeeds exactly from Recording and leads to Idle, and fails from
  Idle with \<^verbatim>\<open>no recording is active in the given register\<close>; failed commands change
  nothing and other registers keep their status. Along any run of the two commands the
  open sessions of the recorder stay one per recording register.
\<close>

theorem recording_state_machine:
  "(recording_status st r = Idle \<longrightarrow>
      fst (recording_start r st) = None
      \<and> recording_status (snd (recording_start r st)) r = Recording
      \<and> recording_start r (snd (recording_start r st)) =
          (Some (ArgumentError ''a recording is already active'' ''register''),
           snd (recording_start r st))
      \<and> recording_stop r st =
          (Some (ArgumentError ''no recording is active in the given register'' ''register''),
           st))
   \<and> (recording_status st r = Recording \<longrightarrow>
        fst (recording_stop r st) = None
        \<and> recording_status (snd (recording_stop r st)) r = Idle
        \<and> recording_start r st =
            (Some (ArgumentError ''a recording is already active'' ''register''), st))
   \<and> (r' \<noteq> r \<longrightarrow>
        recording_status (snd (recording_start r st)) r' = recording_status st r'
        \<and> recording_status (snd (recording_stop r st)) r' = recording_status st r')
   \<and> (sessions_owned st \<longrightarrow> sessions_owned (run_recording_commands cs st))"
proof (intro conjI impI)
  assume "recording_status st r = Idle"
  then have n: "recordingPerRegister st r = None" by (simp add: recording_status_Idle)
  show "fst (recording_start r st) = None" by (simp add: recording_start_idle[OF n])
  show "recording_status (snd (recording_start r st)) r = Recording"
    by (simp add: recording_start_idle[OF n] recording_status_def)
  show "recording_start r (snd (recording_start r st)) =
          (Some (ArgumentError ''a recording is already active'' ''register''),
           snd (recording_start r st))"
    by (rule recording_start_active[where i = "nextSession st"])
       (simp add: recording_start_idle[OF n])
  show "recording_stop r st =
          (Some (ArgumentError ''no recording is active in the given register'' ''register''),
           st)"
    by (rule recording_stop_idle[OF n])
next
  assume "recording_status st r = Recording"
  then obtain i where i: "recordingPerRegister st r = Some i"
    by (auto simp: recording_status_Recording)
  show "fst (recording_stop r st) = None" using recording_stop_status[OF i] by simp
  show "recording_status (snd (recording_stop r st)) r = Idle"
    using recording_stop_status[OF i] by (simp add: recording_status_Idle)
  show "recording_start r st =
            (Some (ArgumentError ''a recording is already active'' ''register''), st)"
    by (rule recording_start_active[OF i])
next
  assume ne: "r' \<noteq> r"
  show "recording_status (snd (recording_start r st)) r' = recording_status st r'"
    using ne by (cases "recordingPerRegister st r")
      (simp_all add: recording_start_idle recording_start_active recording_status_def)
  show "recording_status (snd (recording_stop r st)) r' = recording_status st r'"
    using recording_stop_others[OF ne, of st] by (simp add: recording_status_def)
next
  assume "sessions_owned st"
  then show "sessions_owned (run_recording_commands cs st)" by (rule sessions_owned_run)
qed

theorem recording_state_machine_witness:
  "fst (recording_start ''@'' (session_with [])) = None
   \<and> recording_status (snd (recording_start ''@'' (session_with []))) ''@'' = Recording
   \<and> fst (recording_start ''@'' (snd (recording_start ''@'' (session_with [])))) =
       Some (ArgumentError ''a recording is already active'' ''register'')
   \<and> fst (recording_stop ''@'' (session_with [])) =
       Some (ArgumentError ''no recording is active in the given register'' ''register'')
   \<and> fst (recording_stop ''@'' macro_session) = None
   \<and> recording_status (snd (recording_stop ''@'' macro_session)) ''@'' = Idle
   \<and> recording_status (snd (recording_start ''@'' (session_with []))) ''a'' = Idle
   \<and> sessions_owned
       (run_recording_commands [Start ''@'', Start ''@'', Stop ''@'', Stop ''@'']
          (session_with []))"
proof -
  have idle: "recording_status (session_with []) ''@'' = Idle"
    "recording_status (session_with []) ''a'' = Idle"
    by (simp_all add: recording_status_def session_with_def)
  have rec: "recording_status macro_session ''@'' = Recording"
    by (simp add: recording_status_def macro_session_def)
  have ne: "''a'' \<noteq> ''@''" by simp
  have inv: "sessions_owned (session_with [])"
    by (simp add: sessions_owned_def session_with_def)
  note t = recording_state_machine [of "session_with []" "''@''" "''a''"
      "[Start ''@'', Start ''@'', Stop ''@'', Stop ''@'']"]
  from t idle(1) have p1: "fst (recording_start ''@'' (session_with [])) = None"
    by blast
  from t idle(1)
  have p2: "recording_status (snd (recording_start ''@'' (session_with []))) ''@'' = Recording"
    by blast
  from t idle(1)
  have e3: "recording_start ''@'' (snd (recording_start ''@'' (session_with []))) =
      (Some (ArgumentError ''a recording is already active'' ''register''),
       snd (recording_start ''@'' (session_with [])))"
    by blast
  have p3: "fst (recording_start ''@'' (snd (recording_start ''@'' (session_with [])))) =
       Some (ArgumentError ''a recording is already active'' ''register'')"
    by (simp only: e3 fst_conv)
  from t idle(1)
  have e4: "recording_stop ''@'' (session_with []) =
      (Some (ArgumentError ''no recording is active in the given register'' ''register''),
       session_with [])"
    by blast
  have p4: "fst (recording_stop ''@'' (session_with [])) =
       Some (ArgumentError ''no recording is active in the given register'' ''register'')"
    by (simp only: e4 fst_conv)
  from t ne
  have "recording_status (snd (recording_start ''@'' (session_with []))) ''a'' =
      recording_status (session_with []) ''a''"
    by blast
  then have p7: "recording_status (snd (recording_start ''@'' (session_with []))) ''a'' = Idle"
    by (simp only: idle(2))
  from t inv
  have p8: "sessions_owned
       (run_recording_commands [Start ''@'', Start ''@'', Stop ''@'', Stop ''@'']
          (session_with []))"
    by blast
  from recording_state_machine [of macro_session "''@''" "''a''" "[]"] rec
  have b: "fst (recording_stop ''@'' macro_session) = None
   \<and> recording_status (snd (recording_stop ''@'' macro_session)) ''@'' = Idle"
    by blast
  from p1 p2 p3 p4 p7 p8 b show ?thesis by blast
qed

text \<open>
  C6. A successful \<open>recording_stop\<close> removes the register's entry of
  \<open>recordingPerRegister\<close>, closes the session, and stores its sub-log as the recording
  of the register in place of whatever the register held; the register is Idle again,
  and entries appended later do not change the stored recording. The session of an
  active recording exists whenever the sessions are owned.
\<close>

theorem recording_stop_seals:
  "(recordingPerRegister st r = Some i \<and> sessions st i = Some es \<longrightarrow>
      recording_stop r st =
        (None, st\<lparr>recordingPerRegister := (recordingPerRegister st)(r := None),
                  sessions := (sessions st)(i := None),
                  registerRecording := (registerRecording st)(r \<mapsto> es)\<rparr>)
      \<and> recording_status (snd (recording_stop r st)) r = Idle
      \<and> registerRecording (snd (recording_stop r st)) r = Some es
      \<and> registerRecording (recorder_append x (snd (recording_stop r st))) r = Some es)
   \<and> (sessions_owned st \<and> recordingPerRegister st r = Some i \<longrightarrow> sessions st i \<noteq> None)"
proof (intro conjI impI)
  assume h: "recordingPerRegister st r = Some i \<and> sessions st i = Some es"
  then have eq: "recording_stop r st =
        (None, st\<lparr>recordingPerRegister := (recordingPerRegister st)(r := None),
                  sessions := (sessions st)(i := None),
                  registerRecording := (registerRecording st)(r \<mapsto> es)\<rparr>)"
    by (intro recording_stop_active) auto
  show "recording_stop r st =
        (None, st\<lparr>recordingPerRegister := (recordingPerRegister st)(r := None),
                  sessions := (sessions st)(i := None),
                  registerRecording := (registerRecording st)(r \<mapsto> es)\<rparr>)"
    by (rule eq)
  show "recording_status (snd (recording_stop r st)) r = Idle"
    by (simp add: eq recording_status_def)
  show "registerRecording (snd (recording_stop r st)) r = Some es"
    by (simp add: eq)
  show "registerRecording (recorder_append x (snd (recording_stop r st))) r = Some es"
    by (simp add: eq recorder_append_def)
next
  assume "sessions_owned st \<and> recordingPerRegister st r = Some i"
  then have "i \<in> dom (sessions st)" by (auto simp: sessions_owned_def ran_def)
  then show "sessions st i \<noteq> None" by auto
qed

theorem recording_stop_seals_witness:
  "registerRecording macro_session ''@'' = Some [ExecuteCommand seek_descriptor ''x'']
   \<and> fst (recording_stop ''@'' macro_session) = None
   \<and> recording_status (snd (recording_stop ''@'' macro_session)) ''@'' = Idle
   \<and> registerRecording (snd (recording_stop ''@'' macro_session)) ''@'' =
       Some [ExecuteCommand seek_descriptor ''y'']
   \<and> registerRecording
        (recorder_append (ChangeTextEditorMode ''insert'')
           (snd (recording_stop ''@'' macro_session))) ''@'' =
       Some [ExecuteCommand seek_descriptor ''y'']
   \<and> sessions macro_session 0 \<noteq> None"
proof -
  have h: "recordingPerRegister macro_session ''@'' = Some 0"
    "sessions macro_session 0 = Some [ExecuteCommand seek_descriptor ''y'']"
    "registerRecording macro_session ''@'' = Some [ExecuteCommand seek_descriptor ''x'']"
    by (simp_all add: macro_session_def)
  have inv: "sessions_owned macro_session"
    by (simp add: sessions_owned_def macro_session_def)
  note t = recording_stop_seals [of macro_session "''@''" 0
      "[ExecuteCommand seek_descriptor ''y'']" "ChangeTextEditorMode ''insert''"]
  from t h(1,2) have e: "recording_stop ''@'' macro_session =
        (None, macro_session\<lparr>recordingPerRegister := (recordingPerRegister macro_session)(''@'' := None),
                  sessions := (sessions macro_session)(0 := None),
                  registerRecording := (registerRecording macro_session)
                    (''@'' \<mapsto> [ExecuteCommand seek_descriptor ''y''])\<rparr>)"
    by blast
  have a: "fst (recording_stop ''@'' macro_session) = None"
    by (simp only: e fst_conv)
  from t h(1,2) have b: "recording_status (snd (recording_stop ''@'' macro_session)) ''@'' = Idle
   \<and> registerRecording (snd (recording_stop ''@'' macro_session)) ''@'' =
       Some [ExecuteCommand seek_descriptor ''y'']
   \<and> registerRecording
        (recorder_append (ChangeTextEditorMode ''insert'')
           (snd (recording_stop ''@'' macro_session))) ''@'' =
       Some [ExecuteCommand seek_descriptor ''y'']"
    by blast
  from t inv h(1) have c: "sessions macro_session 0 \<noteq> None"
    by blast
  from h(3) a b c show ?thesis by blast
qed

subsection \<open>Failing replays\<close>

lemma for_repetitions_abort:
  "for_repetitions i (i + int k) body st = (None, sk) \<Longrightarrow> body sk = (Some x, s') \<Longrightarrow>
   i + int k < n \<Longrightarrow> for_repetitions i n body st = (Some x, s')"
proof (induction k arbitrary: i st)
  case 0
  from "0.prems"(1) have "sk = st"
    by (subst (asm) for_repetitions.simps) simp
  with "0.prems" show ?case
    by (subst for_repetitions.simps) simp
next
  case (Suc k)
  obtain r s1 where b: "body st = (r, s1)" by (cases "body st")
  have lt: "i < i + int (Suc k)" by simp
  from Suc.prems(1) b lt have r: "r = None"
    by (subst (asm) for_repetitions.simps) (cases r; simp)
  from Suc.prems(1) b r lt have "for_repetitions (i + 1) (i + int (Suc k)) body s1 = (None, sk)"
    by (subst (asm) for_repetitions.simps) simp
  moreover have "i + int (Suc k) = i + 1 + int k" by simp
  ultimately have "for_repetitions (i + 1) (i + 1 + int k) body s1 = (None, sk)"
    by (simp only:)
  then have "for_repetitions (i + 1) n body s1 = (Some x, s')"
    using Suc.prems(2,3) by (intro Suc.IH) auto
  moreover have "i < n" using Suc.prems(3) by simp
  ultimately show ?case using b r
    by (subst for_repetitions.simps) simp
qed

lemma recording_replay_abort:
  "recording_replay setMode xs st = (None, s1) \<Longrightarrow> entry_replay setMode y s1 = (Some x, s') \<Longrightarrow>
   recording_replay setMode (xs @ y # zs) st = (Some x, s')"
proof (induction xs arbitrary: st)
  case Nil
  then show ?case by simp
next
  case (Cons v xs)
  obtain r s2 where b: "entry_replay setMode v st = (r, s2)"
    by (cases "entry_replay setMode v st")
  from Cons.prems(1) b have r: "r = None" by (cases r) simp_all
  with Cons.prems(1) b have "recording_replay setMode xs s2 = (None, s1)" by simp
  from Cons.IH[OF this Cons.prems(2)] b r show ?case by simp
qed

lemma descriptor_replay_trace:
  "trace (snd (descriptor_replay d a st)) = trace st @ [Replayed (descriptor_identifier d) a]"
  by (simp add: descriptor_replay_def split_beta)

text \<open>
  C7. In each of the three repetition loops, when \<open>k\<close> repetitions have succeeded,
  \<open>k\<close> is below \<open>repetitions\<close> and a replay of the next repetition fails, the
  command returns that very error with the state the failed replay left: the failed
  invocation is the last of the trace, and neither the rest of the span or recording
  nor the remaining repetitions are replayed.
\<close>

theorem replay_failure_propagates:
  "((flt = FilterRegExp r \<or> flt = FilterString pat \<and> newRegExp pat ''u'' = Inr r)
      \<and> repeat_search r (history st) (cursorFromEnd (history st)) = Inr (d, a)
      \<and> repeat newRegExp (int k) flt st = (None, sk)
      \<and> descriptor_replay d a sk = (Some x, s')
      \<and> int k < repetitions \<longrightarrow>
    repeat newRegExp repetitions flt st = (Some x, s')
    \<and> trace s' = trace sk @ [Replayed (descriptor_identifier d) a])
   \<and> (edit_span_search (history st) (cursorFromEnd (history st)) None = Inr (s, e)
      \<and> span_entries (history st) s e = xs @ y # zs
      \<and> repeat_edit setMode (int k) st = (None, sk)
      \<and> recording_replay setMode xs sk = (None, s1)
      \<and> entry_replay setMode y s1 = (Some x, s')
      \<and> int k < repetitions \<longrightarrow>
    repeat_edit setMode repetitions st = (Some x, s')
    \<and> trace s' = trace s1 @ [entry_event y])
   \<and> (registerRecording st register = Some (xs @ y # zs)
      \<and> recording_play setMode (int k) register st = (None, sk)
      \<and> recording_replay setMode xs sk = (None, s1)
      \<and> entry_replay setMode y s1 = (Some x, s')
      \<and> int k < repetitions \<longrightarrow>
    recording_play setMode repetitions register st = (Some x, s')
    \<and> trace s' = trace s1 @ [entry_event y])"
proof (intro conjI impI)
  assume h: "(flt = FilterRegExp r \<or> flt = FilterString pat \<and> newRegExp pat ''u'' = Inr r)
      \<and> repeat_search r (history st) (cursorFromEnd (history st)) = Inr (d, a)
      \<and> repeat newRegExp (int k) flt st = (None, sk)
      \<and> descriptor_replay d a sk = (Some x, s')
      \<and> int k < repetitions"
  then have f: "repeat_search r (history st) (cursorFromEnd (history st)) = Inr (d, a)"
    by simp
  from h have fr: "filter_RegExp newRegExp flt = Inr r"
    by (intro filter_RegExp_denotes[where pat = pat]) simp
  have eq: "repeat newRegExp n flt st = for_repetitions 0 n (descriptor_replay d a) st" for n
    by (simp add: repeat_def f fr)
  have "for_repetitions 0 (0 + int k) (descriptor_replay d a) st = (None, sk)"
    using h eq[of "int k"] by simp
  then have "for_repetitions 0 repetitions (descriptor_replay d a) st = (Some x, s')"
    using h by (intro for_repetitions_abort[where k = k and sk = sk]) auto
  then show "repeat newRegExp repetitions flt st = (Some x, s')"
    by (simp add: eq)
  show "trace s' = trace sk @ [Replayed (descriptor_identifier d) a]"
    using h descriptor_replay_trace[of d a sk] by simp
next
  assume h: "edit_span_search (history st) (cursorFromEnd (history st)) None = Inr (s, e)
      \<and> span_entries (history st) s e = xs @ y # zs
      \<and> repeat_edit setMode (int k) st = (None, sk)
      \<and> recording_replay setMode xs sk = (None, s1)
      \<and> entry_replay setMode y s1 = (Some x, s')
      \<and> int k < repetitions"
  then have "bracketed (history st) s e"
    by (intro edit_span_search_sound[where c = "cursorFromEnd (history st)" and endC = None]) auto
  then have e: "e < length (history st)" by (simp add: bracketed_def)
  have rs: "replay_span setMode (history st) e s =
              recording_replay setMode (span_entries (history st) s e)"
    using replay_span_entries[OF e] by (intro ext)
  from h have f: "edit_span_search (history st) (cursorFromEnd (history st)) None = Inr (s, e)"
    and sp: "span_entries (history st) s e = xs @ y # zs"
    by simp_all
  have eq: "repeat_edit setMode n st =
       for_repetitions 0 n (recording_replay setMode (xs @ y # zs)) (doNotRecord st)" for n
    by (simp add: repeat_edit_def doNotRecord_def f rs sp)
  have fail: "recording_replay setMode (xs @ y # zs) sk = (Some x, s')"
    using h by (intro recording_replay_abort[where ?s1.0 = s1]) auto
  have "for_repetitions 0 (0 + int k) (recording_replay setMode (xs @ y # zs)) (doNotRecord st)
          = (None, sk)"
    using h eq[of "int k"] by simp
  then have "for_repetitions 0 repetitions (recording_replay setMode (xs @ y # zs))
      (doNotRecord st) = (Some x, s')"
    using h fail by (intro for_repetitions_abort[where k = k and sk = sk]) auto
  then show "repeat_edit setMode repetitions st = (Some x, s')"
    by (simp add: eq)
  show "trace s' = trace s1 @ [entry_event y]"
    using h entry_replay_trace[of setMode y s1] by simp
next
  assume h: "registerRecording st register = Some (xs @ y # zs)
      \<and> recording_play setMode (int k) register st = (None, sk)
      \<and> recording_replay setMode xs sk = (None, s1)
      \<and> entry_replay setMode y s1 = (Some x, s')
      \<and> int k < repetitions"
  from h have f: "registerRecording st register = Some (xs @ y # zs)" by simp
  have eq: "recording_play setMode n register st =
       for_repetitions 0 n (recording_replay setMode (xs @ y # zs)) st" for n
    by (simp add: recording_play_def validate_def f)
  have fail: "recording_replay setMode (xs @ y # zs) sk = (Some x, s')"
    using h by (intro recording_replay_abort[where ?s1.0 = s1]) auto
  have "for_repetitions 0 (0 + int k) (recording_replay setMode (xs @ y # zs)) st = (None, sk)"
    using h eq[of "int k"] by simp
  then have "for_repetitions 0 repetitions (recording_replay setMode (xs @ y # zs)) st
      = (Some x, s')"
    using h fail by (intro for_repetitions_abort[where k = k and sk = sk]) auto
  then show "recording_play setMode repetitions register st = (Some x, s')"
    by (simp add: eq)
  show "trace s' = trace s1 @ [entry_event y]"
    using h entry_replay_trace[of setMode y s1] by simp
qed

theorem replay_failure_propagates_witness:
  "repeat sample_newRegExp 3 (FilterString ''^dance[.]edit$'') flaky_session =
     (Some (Error ''read-only document''),
      flaky_session\<lparr>world := 1,
        trace := [Replayed ''dance.edit'' ''y'', Replayed ''dance.edit'' ''y'']\<rparr>)
   \<and> repeat_edit (\<lambda>m w. (None, w)) 3 flaky_session =
     (Some (Error ''read-only document''),
      flaky_session\<lparr>world := 1, shouldRecord := False,
        trace := [Replayed ''dance.seek'' ''x'', Replayed ''dance.edit'' ''y'']\<rparr>)
   \<and> recording_play (\<lambda>m w. (None, w)) 3 ''@'' flaky_session =
     (Some (Error ''read-only document''),
      flaky_session\<lparr>world := 1,
        trace := [Replayed ''dance.seek'' ''x'', Replayed ''dance.edit'' ''y'']\<rparr>)"
proof -
  let ?sx = "ExecuteCommand seek_descriptor ''x''"
  let ?fy = "ExecuteCommand flaky_descriptor ''y''"
  let ?sz = "ExecuteCommand seek_descriptor ''z''"
  let ?id = "\<lambda>(m::string) (w::nat). (None::error option, w)"
  let ?flt = "FilterString ''^dance[.]edit$''"
  let ?boom = "Error ''read-only document''"
  note defs = flaky_session_def flaky_log_def seek_descriptor_def flaky_descriptor_def
    sample_newRegExp_def filter_RegExp_def cursorFromEnd_def cursor_entry_def cursor_previous_def
    cursor_next_def scan_step_def descriptor_replay_def entry_replay_def span_entries_def
    repeat_def repeat_edit_def recording_play_def validate_def doNotRecord_def
    repeat_search.simps edit_span_search.simps for_repetitions.simps numeral_eq_Suc
  \<comment> \<open>repeat: one repetition succeeds, the replay of the second fails\<close>
  let ?a_sk = "flaky_session\<lparr>world := 1, trace := [Replayed ''dance.edit'' ''y'']\<rparr>"
  let ?a_s' = "flaky_session\<lparr>world := 1,
        trace := [Replayed ''dance.edit'' ''y'', Replayed ''dance.edit'' ''y'']\<rparr>"
  let ?edit = "\<lparr>source = ''^dance[.]edit$'', flags = ''u'', test = (\<lambda>i. i = ''dance.edit'')\<rparr>"
  have a0: "?flt = FilterRegExp ?edit
      \<or> ?flt = FilterString ''^dance[.]edit$''
        \<and> sample_newRegExp ''^dance[.]edit$'' ''u'' = Inr ?edit"
    by (simp add: sample_newRegExp_def)
  have a1: "repeat_search ?edit (history flaky_session) (cursorFromEnd (history flaky_session))
        = Inr (flaky_descriptor, ''y'')"
    by (simp add: defs)
  have a2: "repeat sample_newRegExp (int 1) ?flt flaky_session = (None, ?a_sk)"
    by (simp add: defs)
  have a3: "descriptor_replay flaky_descriptor ''y'' ?a_sk = (Some ?boom, ?a_s')"
    by (simp add: defs)
  have a4: "int 1 < 3" by simp
  from replay_failure_propagates [where newRegExp = sample_newRegExp and flt = ?flt
      and r = ?edit and pat = "''^dance[.]edit$''"
      and st = flaky_session and d = flaky_descriptor and a = "''y''" and k = 1
      and sk = ?a_sk and x = ?boom and s' = ?a_s' and repetitions = 3] a0 a1 a2 a3 a4
  have a: "repeat sample_newRegExp 3 ?flt flaky_session = (Some ?boom, ?a_s')"
    by blast
  \<comment> \<open>repeat\_edit: the second entry of the span fails in the first repetition\<close>
  let ?b_sk = "flaky_session\<lparr>shouldRecord := False\<rparr>"
  let ?b_s1 = "flaky_session\<lparr>world := 1, shouldRecord := False,
        trace := [Replayed ''dance.seek'' ''x'']\<rparr>"
  let ?b_s' = "flaky_session\<lparr>world := 1, shouldRecord := False,
        trace := [Replayed ''dance.seek'' ''x'', Replayed ''dance.edit'' ''y'']\<rparr>"
  have b1: "edit_span_search (history flaky_session) (cursorFromEnd (history flaky_session))
      None = Inr (1, 3)"
    by (simp add: defs)
  have b2: "span_entries (history flaky_session) 1 3 = [?sx] @ ?fy # [?sz]"
    by (simp add: defs)
  have b3: "repeat_edit ?id (int 0) flaky_session = (None, ?b_sk)"
    by (simp add: defs)
  have b4: "recording_replay ?id [?sx] ?b_sk = (None, ?b_s1)"
    by (simp add: defs)
  have b5: "entry_replay ?id ?fy ?b_s1 = (Some ?boom, ?b_s')"
    by (simp add: defs)
  have b6: "int 0 < 3" by simp
  from replay_failure_propagates [where st = flaky_session and s = 1 and e = 3
      and xs = "[?sx]" and y = ?fy and zs = "[?sz]" and setMode = ?id and k = 0
      and sk = ?b_sk and ?s1.0 = ?b_s1 and x = ?boom and s' = ?b_s' and repetitions = 3]
    b1 b2 b3 b4 b5 b6
  have b: "repeat_edit ?id 3 flaky_session = (Some ?boom, ?b_s')"
    by blast
  \<comment> \<open>recording\_play: the same entries, held by the register\<close>
  let ?c_s1 = "flaky_session\<lparr>world := 1, trace := [Replayed ''dance.seek'' ''x'']\<rparr>"
  let ?c_s' = "flaky_session\<lparr>world := 1,
        trace := [Replayed ''dance.seek'' ''x'', Replayed ''dance.edit'' ''y'']\<rparr>"
  have c1: "registerRecording flaky_session ''@'' = Some ([?sx] @ ?fy # [?sz])"
    by (simp add: defs)
  have c2: "recording_play ?id (int 0) ''@'' flaky_session = (None, flaky_session)"
    by (simp add: defs)
  have c3: "recording_replay ?id [?sx] flaky_session = (None, ?c_s1)"
    by (simp add: defs)
  have c4: "entry_replay ?id ?fy ?c_s1 = (Some ?boom, ?c_s')"
    by (simp add: defs)
  from replay_failure_propagates [where st = flaky_session and register = "''@''"
      and xs = "[?sx]" and y = ?fy and zs = "[?sz]" and setMode = ?id and k = 0
      and sk = flaky_session and ?s1.0 = ?c_s1 and x = ?boom and s' = ?c_s' and repetitions = 3]
    c1 c2 c3 c4 b6
  have c: "recording_play ?id 3 ''@'' flaky_session = (Some ?boom, ?c_s')"
    by blast
  from a b c show ?thesis by blast
qed

subsection \<open>Cancellation\<close>

lemma for_repetitions_commute:
  "(\<And>s. body (f s) = apsnd f (body s)) \<Longrightarrow>
   for_repetitions i n body (f st) = apsnd f (for_repetitions i n body st)"
proof (induction i n body st rule: for_repetitions.induct)
  case (1 i n body st)
  show ?case
  proof (cases "i < n")
    case False
    then show ?thesis by (simp add: for_repetitions.simps[of i n])
  next
    case True
    obtain r s1 where b: "body st = (r, s1)" by (cases "body st")
    then have bf: "body (f st) = (r, f s1)" using "1.prems"[of st] by simp
    show ?thesis
    proof (cases r)
      case (Some x)
      with True b bf show ?thesis by (simp add: for_repetitions.simps[of i n])
    next
      case None
      have b': "(None, s1) = body st" using b None by simp
      have "for_repetitions (i + 1) n body (f s1) = apsnd f (for_repetitions (i + 1) n body s1)"
        by (rule "1.IH"[OF True b' refl "1.prems"])
      with True b bf None show ?thesis by (simp add: for_repetitions.simps[of i n])
    qed
  qed
qed

lemma entry_replay_cancelled:
  "entry_replay setMode x (set_cancelled b st) = apsnd (set_cancelled b) (entry_replay setMode x st)"
  by (cases x)
     (simp_all add: entry_replay_def descriptor_replay_def set_cancelled_def split_beta)

lemma recording_replay_cancelled:
  "recording_replay setMode es (set_cancelled b st)
     = apsnd (set_cancelled b) (recording_replay setMode es st)"
proof (induction es arbitrary: st)
  case Nil
  then show ?case by simp
next
  case (Cons x es)
  obtain r s1 where e: "entry_replay setMode x st = (r, s1)"
    by (cases "entry_replay setMode x st")
  with entry_replay_cancelled[of setMode x b st]
  have "entry_replay setMode x (set_cancelled b st) = (r, set_cancelled b s1)" by simp
  with e Cons.IH show ?case by (cases r) simp_all
qed

lemma for_repetitions_trace:
  "(\<And>s. \<exists>evs. trace (snd (body s)) = trace s @ evs) \<Longrightarrow>
   \<exists>evs. trace (snd (for_repetitions i n body st)) = trace st @ evs"
proof (induction i n body st rule: for_repetitions.induct)
  case (1 i n body st)
  show ?case
  proof (cases "i < n")
    case False
    then show ?thesis by (simp add: for_repetitions.simps[of i n])
  next
    case True
    obtain r s1 where b: "body st = (r, s1)" by (cases "body st")
    from "1.prems"[of st] b obtain evs where evs: "trace s1 = trace st @ evs" by auto
    show ?thesis
    proof (cases r)
      case (Some x)
      with True b evs show ?thesis by (simp add: for_repetitions.simps[of i n])
    next
      case None
      have b': "(None, s1) = body st" using b None by simp
      have "\<exists>evs'. trace (snd (for_repetitions (i + 1) n body s1)) = trace s1 @ evs'"
        by (rule "1.IH"[OF True b' refl "1.prems"])
      then obtain evs' where "trace (snd (for_repetitions (i + 1) n body s1)) = trace s1 @ evs'"
        by auto
      with True b evs None show ?thesis by (simp add: for_repetitions.simps[of i n])
    qed
  qed
qed

lemma recording_replay_trace:
  "\<exists>evs. trace (snd (recording_replay setMode es st)) = trace st @ evs"
proof (induction es arbitrary: st)
  case Nil
  then show ?case by simp
next
  case (Cons x es)
  obtain r s1 where e: "entry_replay setMode x st = (r, s1)"
    by (cases "entry_replay setMode x st")
  with entry_replay_trace[of setMode x st] have t: "trace s1 = trace st @ [entry_event x]" by simp
  from Cons.IH[of s1] obtain evs where "trace (snd (recording_replay setMode es s1)) = trace s1 @ evs"
    by auto
  with e t show ?case by (cases r) simp_all
qed

lemma repeat_edit_as_recording_replay:
  "edit_span_search (history st) (cursorFromEnd (history st)) None = Inr (s, e) \<Longrightarrow>
   repeat_edit setMode n st =
     for_repetitions 0 n (recording_replay setMode (span_entries (history st) s e))
       (doNotRecord st)"
proof -
  assume found: "edit_span_search (history st) (cursorFromEnd (history st)) None = Inr (s, e)"
  then have "bracketed (history st) s e"
    by (rule edit_span_search_sound) simp
  then have e: "e < length (history st)" by (simp add: bracketed_def)
  have rs: "replay_span setMode (history st) e s =
              recording_replay setMode (span_entries (history st) s e)"
    using replay_span_entries[OF e] by (intro ext)
  show ?thesis using found by (simp add: repeat_edit_def doNotRecord_def rs)
qed

lemma repeat_cancelled:
  "repeat newRegExp n flt (set_cancelled b st) = apsnd (set_cancelled b) (repeat newRegExp n flt st)"
proof (cases "filter_RegExp newRegExp flt")
  case (Inl e)
  then show ?thesis by (simp add: repeat_def)
next
  case r: (Inr r)
  show ?thesis
  proof (cases "repeat_search r (history st) (cursorFromEnd (history st))")
    case (Inl x)
    with r show ?thesis by (simp add: repeat_def set_cancelled_def)
  next
    case (Inr da)
    obtain d a where "da = (d, a)" by (cases da)
    with r Inr have eq: "repeat newRegExp n flt s = for_repetitions 0 n (descriptor_replay d a) s"
      if "history s = history st" for s
      using that by (simp add: repeat_def)
    have "for_repetitions 0 n (descriptor_replay d a) (set_cancelled b st)
        = apsnd (set_cancelled b) (for_repetitions 0 n (descriptor_replay d a) st)"
      by (rule for_repetitions_commute)
         (simp add: descriptor_replay_def set_cancelled_def split_beta)
    then show ?thesis by (simp add: eq set_cancelled_def)
  qed
qed

lemma repeat_edit_cancelled:
  "repeat_edit setMode n (set_cancelled b st) = apsnd (set_cancelled b) (repeat_edit setMode n st)"
proof (cases "edit_span_search (history st) (cursorFromEnd (history st)) None")
  case (Inl x)
  then show ?thesis by (simp add: repeat_edit_def set_cancelled_def doNotRecord_def)
next
  case (Inr se)
  obtain s e where se: "se = (s, e)" by (cases se)
  have h: "history (set_cancelled b st) = history st" by (simp add: set_cancelled_def)
  have c: "doNotRecord (set_cancelled b st) = set_cancelled b (doNotRecord st)"
    by (simp add: set_cancelled_def doNotRecord_def)
  have "for_repetitions 0 n (recording_replay setMode (span_entries (history st) s e))
          (set_cancelled b (doNotRecord st))
      = apsnd (set_cancelled b)
          (for_repetitions 0 n (recording_replay setMode (span_entries (history st) s e))
             (doNotRecord st))"
    by (rule for_repetitions_commute) (rule recording_replay_cancelled)
  then show ?thesis
    using repeat_edit_as_recording_replay[of st s e setMode n]
      repeat_edit_as_recording_replay[of "set_cancelled b st" s e setMode n] Inr se
    by (simp add: h c)
qed

lemma recording_play_cancelled:
  "recording_play setMode n register (set_cancelled b st)
     = apsnd (set_cancelled b) (recording_play setMode n register st)"
proof (cases "registerRecording st register")
  case None
  then show ?thesis by (simp add: recording_play_def validate_def set_cancelled_def)
next
  case (Some r)
  have "for_repetitions 0 n (recording_replay setMode r) (set_cancelled b st)
      = apsnd (set_cancelled b) (for_repetitions 0 n (recording_replay setMode r) st)"
    by (rule for_repetitions_commute) (rule recording_replay_cancelled)
  with Some show ?thesis by (simp add: recording_play_def validate_def set_cancelled_def)
qed

lemma repeat_trace: "\<exists>evs. trace (snd (repeat newRegExp n flt st)) = trace st @ evs"
proof (cases "filter_RegExp newRegExp flt")
  case (Inl e)
  then show ?thesis by (simp add: repeat_def)
next
  case r: (Inr r)
  show ?thesis
  proof (cases "repeat_search r (history st) (cursorFromEnd (history st))")
    case (Inl x)
    with r show ?thesis by (simp add: repeat_def)
  next
    case (Inr da)
    obtain d a where "da = (d, a)" by (cases da)
    with r Inr have eq: "repeat newRegExp n flt st = for_repetitions 0 n (descriptor_replay d a) st"
      by (simp add: repeat_def)
    show ?thesis unfolding eq
      by (rule for_repetitions_trace) (simp add: descriptor_replay_trace)
  qed
qed

lemma repeat_edit_trace: "\<exists>evs. trace (snd (repeat_edit setMode n st)) = trace st @ evs"
proof (cases "edit_span_search (history st) (cursorFromEnd (history st)) None")
  case (Inl x)
  then show ?thesis by (simp add: repeat_edit_def doNotRecord_def)
next
  case (Inr se)
  obtain s e where se: "se = (s, e)" by (cases se)
  have "\<exists>evs. trace (snd (for_repetitions 0 n
          (recording_replay setMode (span_entries (history st) s e)) (doNotRecord st)))
        = trace (doNotRecord st) @ evs"
    by (rule for_repetitions_trace) (rule recording_replay_trace)
  then show ?thesis
    using repeat_edit_as_recording_replay[of st s e setMode n] Inr se
    by (simp add: doNotRecord_def)
qed

lemma recording_play_trace:
  "\<exists>evs. trace (snd (recording_play setMode n register st)) = trace st @ evs"
proof (cases "registerRecording st register")
  case None
  then show ?thesis by (simp add: recording_play_def validate_def)
next
  case (Some r)
  have "\<exists>evs. trace (snd (for_repetitions 0 n (recording_replay setMode r) st)) = trace st @ evs"
    by (rule for_repetitions_trace) (rule recording_replay_trace)
  with Some show ?thesis by (simp add: recording_play_def validate_def)
qed

text \<open>
  C8, as amended. The repetition loops of \<open>repeat\<close>, \<open>repeat_edit\<close> and
  \<open>recording_play\<close> never read the cancellation signal: whatever its value, they return
  the same error and the same state, the signal apart, so a requested cancellation
  aborts no repetition. What has been replayed is never rolled back: the trace of the
  final state extends the trace of the initial one.
\<close>

theorem repetitions_ignore_cancellation:
  "repeat newRegExp n flt (set_cancelled b st)
     = apsnd (set_cancelled b) (repeat newRegExp n flt st)
   \<and> repeat_edit setMode n (set_cancelled b st)
     = apsnd (set_cancelled b) (repeat_edit setMode n st)
   \<and> recording_play setMode n register (set_cancelled b st)
     = apsnd (set_cancelled b) (recording_play setMode n register st)
   \<and> (\<exists>evs. trace (snd (repeat newRegExp n flt st)) = trace st @ evs)
   \<and> (\<exists>evs. trace (snd (repeat_edit setMode n st)) = trace st @ evs)
   \<and> (\<exists>evs. trace (snd (recording_play setMode n register st)) = trace st @ evs)"
  by (intro conjI repeat_cancelled repeat_edit_cancelled recording_play_cancelled
        repeat_trace repeat_edit_trace recording_play_trace)

text \<open>
  C8, as stated, fails: with the cancellation requested from the start, \<open>repeat\<close>
  still performs its three repetitions.
\<close>

theorem cancellation_counterexample:
  "cancellationRequested cancelled_session
   \<and> repeat sample_newRegExp 3 (FilterRegExp any_RegExp) cancelled_session =
       (None, cancelled_session\<lparr>world := 3,
          trace := [Replayed ''dance.seek'' ''y'', Replayed ''dance.seek'' ''y'',
                    Replayed ''dance.seek'' ''y'']\<rparr>)"
  by (simp add: cancelled_session_def edit_log_def seek_descriptor_def any_RegExp_def
        filter_RegExp_def cursorFromEnd_def cursor_entry_def cursor_previous_def
        descriptor_replay_def repeat_def repeat_search.simps for_repetitions.simps
        numeral_eq_Suc)

subsection \<open>No repetitions\<close>

lemma repeat_search_Inl:
  "repeat_search flt lg c = Inl x \<Longrightarrow> q \<le> c \<Longrightarrow> q < length lg \<Longrightarrow> \<not> eligible flt (lg ! q)"
proof (induction flt lg c rule: repeat_search.induct)
  case (1 flt lg c)
  let ?inner = "case cursor_entry lg c of
              Some (ExecuteCommand descriptor argument) \<Rightarrow>
                if shouldBeReplayed descriptor \<and> test flt (descriptor_identifier descriptor)
                then Some (descriptor, argument) else None
            | _ \<Rightarrow> None"
  have inner: "?inner = None"
  proof (cases ?inner)
    case None
    then show ?thesis .
  next
    case (Some found)
    with "1.prems"(1) show ?thesis by (subst (asm) repeat_search.simps) simp
  qed
  have here: "c < length lg \<Longrightarrow> \<not> eligible flt (lg ! c)"
    using inner by (auto simp: cursor_entry_def eligible_def split: Entry.splits if_splits)
  show ?case
  proof (cases "q = c")
    case True
    with here "1.prems" show ?thesis by simp
  next
    case False
    with "1.prems" have c: "0 < c" "q \<le> c - 1" by auto
    then have prev: "cursor_previous lg c = (True, c - 1)" by (simp add: cursor_previous_def)
    from "1.prems"(1) inner prev have "repeat_search flt lg (c - 1) = Inl x"
      by (subst (asm) repeat_search.simps) simp
    from "1.IH"[OF inner prev[symmetric] refl this c(2) "1.prems"(3)] show ?thesis .
  qed
qed

text \<open>
  C9. With no repetitions, \<open>repeat\<close> under a filter (a RegExp, or a string that
  \<^verbatim>\<open>new RegExp\<close> compiles; for a string that is no pattern see
  \<open>repeat_invalid_pattern\<close>) still fails with the search error when no entry of the log
  is eligible, and \<open>recording_play\<close> still fails with the argument error when the
  register holds no recording; when the search or the validation succeeds, they return
  without an error and leave the state, its trace included, as it was.
\<close>

theorem zero_repetitions:
  "(flt = FilterRegExp r \<or> flt = FilterString pat \<and> newRegExp pat ''u'' = Inr r \<longrightarrow>
      ((\<forall>q < length (history st). \<not> eligible r (history st ! q)) \<longrightarrow>
         repeat newRegExp 0 flt st =
           (Some (Error (''no previous command matching '' @ RegExp_toString r)), st))
      \<and> ((\<exists>q < length (history st). eligible r (history st ! q)) \<longrightarrow>
         repeat newRegExp 0 flt st = (None, st)))
   \<and> (registerRecording st register = None \<longrightarrow>
      recording_play setMode 0 register st =
        (Some (ArgumentError
                 (''register '' @ [CHR 0x22] @ register @ [CHR 0x22]
                    @ '' does not hold a recording'') ''recording''), st))
   \<and> (registerRecording st register \<noteq> None \<longrightarrow>
      recording_play setMode 0 register st = (None, st))"
proof (intro conjI impI)
  assume "flt = FilterRegExp r \<or> flt = FilterString pat \<and> newRegExp pat ''u'' = Inr r"
  then have f: "filter_RegExp newRegExp flt = Inr r" by (rule filter_RegExp_denotes)
  assume "\<forall>q < length (history st). \<not> eligible r (history st ! q)"
  then have "repeat_search r (history st) (cursorFromEnd (history st))
      = Inl (Error (''no previous command matching '' @ RegExp_toString r))"
    by (intro repeat_search_none) simp
  then show "repeat newRegExp 0 flt st =
        (Some (Error (''no previous command matching '' @ RegExp_toString r)), st)"
    by (simp add: repeat_def f)
next
  let ?r = "repeat_search r (history st) (cursorFromEnd (history st))"
  assume "flt = FilterRegExp r \<or> flt = FilterString pat \<and> newRegExp pat ''u'' = Inr r"
  then have f: "filter_RegExp newRegExp flt = Inr r" by (rule filter_RegExp_denotes)
  assume "\<exists>q < length (history st). eligible r (history st ! q)"
  then obtain q where q: "q < length (history st)" "eligible r (history st ! q)" by auto
  have "\<exists>da. ?r = Inr da"
  proof (cases ?r)
    case (Inl x)
    from repeat_search_Inl[OF Inl, of q] q show ?thesis by (simp add: cursorFromEnd_def)
  next
    case (Inr da)
    then show ?thesis by simp
  qed
  then obtain d a where "?r = Inr (d, a)" by auto
  then show "repeat newRegExp 0 flt st = (None, st)"
    by (simp add: repeat_def f for_repetitions.simps)
next
  assume "registerRecording st register = None"
  then show "recording_play setMode 0 register st =
        (Some (ArgumentError
                 (''register '' @ [CHR 0x22] @ register @ [CHR 0x22]
                    @ '' does not hold a recording'') ''recording''), st)"
    by (simp add: recording_play_def validate_def)
next
  assume "registerRecording st register \<noteq> None"
  then show "recording_play setMode 0 register st = (None, st)"
    by (auto simp: recording_play_def validate_def for_repetitions.simps)
qed

theorem zero_repetitions_witness:
  "repeat sample_newRegExp 0 (FilterString ''^dance[.]edit$'') macro_session =
     (Some (Error ''no previous command matching /^dance[.]edit$/u''), macro_session)
   \<and> repeat sample_newRegExp 0 (FilterString ''^dance[.]edit$'') flaky_session
       = (None, flaky_session)
   \<and> repeat sample_newRegExp 0 (FilterRegExp seek_RegExp) macro_session = (None, macro_session)
   \<and> recording_play (\<lambda>m w. (None, w)) 0 ''a'' macro_session =
     (Some (ArgumentError
              (''register '' @ [CHR 0x22] @ ''a'' @ [CHR 0x22] @ '' does not hold a recording'')
              ''recording''), macro_session)
   \<and> recording_play (\<lambda>m w. (None, w)) 0 ''@'' macro_session = (None, macro_session)"
proof -
  let ?id = "\<lambda>(m::string) (w::nat). (None::error option, w)"
  let ?edit = "\<lparr>source = ''^dance[.]edit$'', flags = ''u'', test = (\<lambda>i. i = ''dance.edit'')\<rparr>"
  have new: "FilterString ''^dance[.]edit$'' = FilterRegExp ?edit
      \<or> FilterString ''^dance[.]edit$'' = FilterString ''^dance[.]edit$''
        \<and> sample_newRegExp ''^dance[.]edit$'' ''u'' = Inr ?edit"
    by (simp add: sample_newRegExp_def)
  have none: "\<forall>q < length (history macro_session). \<not> eligible ?edit (history macro_session ! q)"
    by (simp add: macro_session_def eligible_def seek_descriptor_def less_Suc_eq
          numeral_eq_Suc nth_Cons')
  have some: "\<exists>q < length (history flaky_session). eligible ?edit (history flaky_session ! q)"
    by (rule exI[of _ 2])
       (simp add: flaky_session_def flaky_log_def eligible_def flaky_descriptor_def)
  have some': "\<exists>q < length (history macro_session). eligible seek_RegExp (history macro_session ! q)"
    by (rule exI[of _ 0])
       (simp add: macro_session_def eligible_def seek_RegExp_def seek_descriptor_def)
  have n: "registerRecording macro_session ''a'' = None"
    "registerRecording macro_session ''@'' \<noteq> None"
    by (simp_all add: macro_session_def)
  from zero_repetitions [of "FilterString ''^dance[.]edit$''" ?edit "''^dance[.]edit$''"
      sample_newRegExp macro_session "''a''" ?id] new none
  have a: "repeat sample_newRegExp 0 (FilterString ''^dance[.]edit$'') macro_session =
     (Some (Error (''no previous command matching '' @ RegExp_toString ?edit)), macro_session)"
    by blast
  have msg: "''no previous command matching '' @ RegExp_toString ?edit
      = ''no previous command matching /^dance[.]edit$/u''"
    by (simp add: RegExp_toString_def)
  from zero_repetitions [of "FilterString ''^dance[.]edit$''" ?edit "''^dance[.]edit$''"
      sample_newRegExp flaky_session "''a''" ?id] new some
  have b: "repeat sample_newRegExp 0 (FilterString ''^dance[.]edit$'') flaky_session
       = (None, flaky_session)"
    by blast
  from zero_repetitions [of "FilterRegExp seek_RegExp" seek_RegExp "[]"
      sample_newRegExp macro_session "''a''" ?id] some'
  have b': "repeat sample_newRegExp 0 (FilterRegExp seek_RegExp) macro_session
       = (None, macro_session)"
    by blast
  note t = zero_repetitions [of "FilterRegExp seek_RegExp" seek_RegExp "[]"
      sample_newRegExp macro_session]
  from t[of "''a''" ?id] n(1)
  have c: "recording_play ?id 0 ''a'' macro_session =
     (Some (ArgumentError
              (''register '' @ [CHR 0x22] @ ''a'' @ [CHR 0x22] @ '' does not hold a recording'')
              ''recording''), macro_session)"
    by blast
  from t[of "''@''" ?id] n(2)
  have d: "recording_play ?id 0 ''@'' macro_session = (None, macro_session)"
    by blast
  from a[unfolded msg] b b' c d show ?thesis by blast
qed

subsection \<open>The recording flag\<close>

lemma for_repetitions_keeps:
  "(\<And>s. f (snd (body s)) = f s) \<Longrightarrow> f (snd (for_repetitions i n body st)) = f st"
proof (induction i n body st rule: for_repetitions.induct)
  case (1 i n body st)
  show ?case
  proof (cases "i < n")
    case False
    then show ?thesis by (simp add: for_repetitions.simps[of i n])
  next
    case True
    obtain r s1 where b: "body st = (r, s1)" by (cases "body st")
    from "1.prems"[of st] b have k: "f s1 = f st" by simp
    show ?thesis
    proof (cases r)
      case (Some x)
      with True b k show ?thesis by (simp add: for_repetitions.simps[of i n])
    next
      case None
      have b': "(None, s1) = body st" using b None by simp
      have "f (snd (for_repetitions (i + 1) n body s1)) = f s1"
        by (rule "1.IH"[OF True b' refl "1.prems"])
      with True b k None show ?thesis by (simp add: for_repetitions.simps[of i n])
    qed
  qed
qed

lemma entry_replay_keeps:
  "shouldRecord (snd (entry_replay setMode x st)) = shouldRecord st"
  "history (snd (entry_replay setMode x st)) = history st"
  by (cases x; simp add: entry_replay_def descriptor_replay_def split_beta)+

lemma replay_span_keeps:
  "shouldRecord (snd (replay_span setMode lg e c st)) = shouldRecord st
   \<and> history (snd (replay_span setMode lg e c st)) = history st"
proof (induction setMode lg e c st rule: replay_span.induct)
  case (1 setMode lg e c st)
  show ?case
  proof (cases "isBeforeOrEqual c e")
    case False
    then show ?thesis by (simp add: replay_span.simps[of setMode lg e c])
  next
    case True
    obtain r s1 where b: "cursor_replay setMode lg c st = (r, s1)"
      by (cases "cursor_replay setMode lg c st")
    have k: "shouldRecord s1 = shouldRecord st \<and> history s1 = history st"
    proof (cases "cursor_entry lg c")
      case None
      with b show ?thesis by (simp add: cursor_replay_def)
    next
      case (Some x)
      with b have "s1 = snd (entry_replay setMode x st)" by (simp add: cursor_replay_def)
      then show ?thesis by (simp add: entry_replay_keeps)
    qed
    show ?thesis
    proof (cases r)
      case (Some x)
      with True b k show ?thesis by (simp add: replay_span.simps[of setMode lg e c])
    next
      case None
      have b': "(None, s1) = cursor_replay setMode lg c st" using b None by simp
      from "1.IH"[OF True b' refl] True b k None show ?thesis
        by (simp add: replay_span.simps[of setMode lg e c])
    qed
  qed
qed

text \<open>
  C10. Every invocation of \<open>repeat_edit\<close> clears the recording flag first: the flag is
  off in the state it returns whatever the count, whether the search fails (the state
  is then the initial one with the flag off), a replay fails or all succeed, and the
  log is the one it started with; so the dispatcher's logging step adds no entry for the
  invocation.
\<close>

theorem repeat_edit_not_recorded:
  "shouldRecord (snd (repeat_edit setMode repetitions st)) = False
   \<and> history (snd (repeat_edit setMode repetitions st)) = history st
   \<and> history (record_invocation entry (snd (repeat_edit setMode repetitions st))) = history st
   \<and> (edit_span_search (history st) (cursorFromEnd (history st)) None = Inl x \<longrightarrow>
        repeat_edit setMode repetitions st = (Some x, doNotRecord st))
   \<and> (edit_span_search (history st) (cursorFromEnd (history st)) None = Inr se \<longrightarrow>
        repeat_edit setMode 0 st = (None, doNotRecord st))"
proof -
  have keep: "shouldRecord (snd (repeat_edit setMode repetitions st)) = False
      \<and> history (snd (repeat_edit setMode repetitions st)) = history st"
  proof (cases "edit_span_search (history st) (cursorFromEnd (history st)) None")
    case (Inl y)
    then show ?thesis by (simp add: repeat_edit_def doNotRecord_def)
  next
    case (Inr p)
    obtain s e where p: "p = (s, e)" by (cases p)
    let ?body = "replay_span setMode (history st) e s"
    have "shouldRecord (snd (for_repetitions 0 repetitions ?body (doNotRecord st)))
        = shouldRecord (doNotRecord st)"
      by (rule for_repetitions_keeps) (simp add: replay_span_keeps)
    moreover have "history (snd (for_repetitions 0 repetitions ?body (doNotRecord st)))
        = history (doNotRecord st)"
      by (rule for_repetitions_keeps) (simp add: replay_span_keeps)
    ultimately show ?thesis using Inr p by (simp add: repeat_edit_def doNotRecord_def)
  qed
  moreover from keep
  have "history (record_invocation entry (snd (repeat_edit setMode repetitions st))) = history st"
    by (simp add: record_invocation_def)
  moreover have "edit_span_search (history st) (cursorFromEnd (history st)) None = Inl x \<longrightarrow>
        repeat_edit setMode repetitions st = (Some x, doNotRecord st)"
    by (simp add: repeat_edit_def doNotRecord_def)
  moreover have "edit_span_search (history st) (cursorFromEnd (history st)) None = Inr se \<longrightarrow>
        repeat_edit setMode 0 st = (None, doNotRecord st)"
    by (cases se) (simp add: repeat_edit_def doNotRecord_def for_repetitions.simps)
  ultimately show ?thesis by blast
qed

theorem repeat_edit_not_recorded_witness:
  "shouldRecord (session_with edit_log)
   \<and> shouldRecord (snd (repeat_edit (\<lambda>m w. (None, w)) 2 (session_with edit_log))) = False
   \<and> history (record_invocation (ExecuteCommand seek_descriptor ''.'')
        (snd (repeat_edit (\<lambda>m w. (None, w)) 2 (session_with edit_log)))) = edit_log
   \<and> repeat_edit (\<lambda>m w. (None, w)) 2 (session_with []) =
       (Some (Error ''cannot find switch to normal or insert mode''),
        doNotRecord (session_with []))
   \<and> repeat_edit (\<lambda>m w. (None, w)) 0 (session_with edit_log) =
       (None, doNotRecord (session_with edit_log))"
proof -
  let ?id = "\<lambda>(m::string) (w::nat). (None::error option, w)"
  note defs = session_with_def edit_log_def cursorFromEnd_def cursor_entry_def
    cursor_previous_def cursor_next_def scan_step_def edit_span_search.simps numeral_eq_Suc
  have f1: "edit_span_search (history (session_with [])) (cursorFromEnd (history (session_with [])))
      None = Inl (Error ''cannot find switch to normal or insert mode'')"
    by (simp add: defs)
  have f2: "edit_span_search (history (session_with edit_log))
      (cursorFromEnd (history (session_with edit_log))) None = Inr (1, 2)"
    by (simp add: defs)
  have h: "history (session_with edit_log) = edit_log" "shouldRecord (session_with edit_log)"
    by (simp_all add: session_with_def)
  note t = repeat_edit_not_recorded [of ?id 2 "session_with edit_log"
      "ExecuteCommand seek_descriptor ''.''"]
  from t have a: "shouldRecord (snd (repeat_edit ?id 2 (session_with edit_log))) = False"
    by blast
  from t have "history (record_invocation (ExecuteCommand seek_descriptor ''.'')
        (snd (repeat_edit ?id 2 (session_with edit_log)))) = history (session_with edit_log)"
    by blast
  then have b: "history (record_invocation (ExecuteCommand seek_descriptor ''.'')
        (snd (repeat_edit ?id 2 (session_with edit_log)))) = edit_log"
    by (simp only: h(1))
  from repeat_edit_not_recorded [of ?id 2 "session_with []" _
      "Error ''cannot find switch to normal or insert mode''"] f1
  have c: "repeat_edit ?id 2 (session_with []) =
       (Some (Error ''cannot find switch to normal or insert mode''),
        doNotRecord (session_with []))"
    by blast
  from repeat_edit_not_recorded [of ?id 2 "session_with edit_log" _ _ "(1, 2)"] f2
  have d: "repeat_edit ?id 0 (session_with edit_log) = (None, doNotRecord (session_with edit_log))"
    by blast
  from h(2) a b c d show ?thesis by blast
qed

end
